theory Spec2Isabelle
  imports Main
begin

section \<open>Errors (errors.go and the error values of client.go)\<close>

text \<open>
  The details that Elasticsearch sends with an error. Only the two fields that
  \<open>Error.Error()\<close> prints are kept; the others are carried along by the decoder
  in the same way.
\<close>

record ErrorDetails =
  Type :: string
  Reason :: string

text \<open>
  Go's \<open>error\<close> values that the connection layer tells apart. \<open>UrlError t e\<close> is a
  \<open>*url.Error\<close> wrapping \<open>e\<close> whose \<open>Temporary()\<close> method answers \<open>t\<close>;
  \<open>ErrorsWrap\<close> and \<open>ErrorsWrapf\<close> are \<open>errors.Wrap\<close> and \<open>errors.Wrapf\<close>
  of the package \<open>github.com/pkg/errors\<close> (format string and formatted argument);
  \<open>ElasticError\<close> is \<open>*elastic.Error\<close> with its \<open>Status\<close> and \<open>Details\<close>;
  \<open>OtherError\<close> is any other error value, named by its message. A nil error
  is \<open>None\<close> of \<open>error option\<close>.
\<close>

datatype error =
    ContextCanceled
  | ContextDeadlineExceeded
  | UrlError bool error
  | ErrNoClient
  | ErrorsWrap error string
  | ErrorsWrapf error string error
  | ElasticError int "ErrorDetails option"
  | OtherError string

text \<open>\<open>errors.Cause\<close>: the innermost error below the wrappers of \<open>pkg/errors\<close>.\<close>

fun Cause :: "error \<Rightarrow> error" where
  "Cause (ErrorsWrap e m) = Cause e"
| "Cause (ErrorsWrapf e m a) = Cause e"
| "Cause e = e"

text \<open>\<open>IsContextErr\<close> of errors.go, first on a non-nil error, then on Go's \<open>error\<close>.\<close>

fun IsContextErr' :: "error \<Rightarrow> bool" where
  "IsContextErr' ContextCanceled = True"
| "IsContextErr' ContextDeadlineExceeded = True"
| "IsContextErr' (UrlError temporary e) = (if temporary then True else IsContextErr' e)"
| "IsContextErr' e = False"

definition IsContextErr :: "error option \<Rightarrow> bool" where
  "IsContextErr err = (case err of None \<Rightarrow> False | Some e \<Rightarrow> IsContextErr' e)"

text \<open>
  Modelled from the spec: \<open>IsUnauthorized\<close> is called by \<open>startupHealthcheck\<close> but
  its definition is not among the source files. The spec calls the errors it
  recognises "auth errors (401)"; the only such error \<open>startupHealthcheck\<close> builds
  is \<open>&Error{Status: 401}\<close>.
\<close>

definition IsUnauthorized :: "error option \<Rightarrow> bool" where
  "IsUnauthorized err = (case err of Some (ElasticError s d) \<Rightarrow> s = 401 | _ \<Rightarrow> False)"


section \<open>HTTP requests and responses\<close>

text \<open>
  An \<open>*http.Request\<close> as far as the connection layer's control flow reads it:
  the method, the URL and the body. Headers (basic authentication, content
  type, default headers, user agent) are set on the request but never read
  back by the code modelled here.
\<close>

record http_request =
  ReqMethod :: string
  ReqURL :: string
  ReqBody :: "string option"

text \<open>
  What \<open>ioutil.ReadAll\<close> followed by \<open>json.Unmarshal\<close> into an \<open>Error\<close> makes of a
  response body: reading fails, decoding fails, or the body decodes to an
  \<open>Error\<close> with the given \<open>status\<close> field (0 when absent) and \<open>error\<close> field.
\<close>

datatype body =
    ReadFails
  | UnmarshalFails
  | Unmarshals int "ErrorDetails option"

text \<open>An \<open>*http.Response\<close>: status code, body (\<open>None\<close> is a nil body) and the
  values of the \<open>Warning\<close> header.\<close>

record http_response =
  StatusCode :: int
  Body :: "body option"
  Warning :: "string list"

text \<open>\<open>createResponseError\<close> and \<open>checkResponse\<close> of errors.go.\<close>

definition createResponseError :: "http_response \<Rightarrow> error" where
  "createResponseError res =
     (case Body res of
        None \<Rightarrow> ElasticError (StatusCode res) None
      | Some ReadFails \<Rightarrow> ElasticError (StatusCode res) None
      | Some UnmarshalFails \<Rightarrow> ElasticError (StatusCode res) None
      | Some (Unmarshals status details) \<Rightarrow>
          (if status = 0 then ElasticError (StatusCode res) details
           else ElasticError status details))"

text \<open>The loop over \<open>ignoreErrors\<close>: is the status one of the codes?\<close>

fun ignored :: "int list \<Rightarrow> int \<Rightarrow> bool" where
  "ignored [] status = False"
| "ignored (code # codes) status = (if code = status then True else ignored codes status)"

definition checkResponse :: "http_response \<Rightarrow> int list \<Rightarrow> error option" where
  "checkResponse res ignoreErrors =
     (if StatusCode res \<ge> 200 \<and> StatusCode res \<le> 299 then None
      else if ignored ignoreErrors (StatusCode res) then None
      else Some (createResponseError res))"


section \<open>Connections\<close>

text \<open>
  Modelled from the spec: the type \<open>conn\<close> and its methods \<open>NodeID\<close>, \<open>URL\<close>,
  \<open>IsDead\<close>, \<open>MarkAsDead\<close>, \<open>MarkAsAlive\<close> and \<open>MarkAsHealthy\<close> are used by
  client.go but declared in a file that is not among the sources. The spec's
  Endpoint has a node identifier, a base URL, a liveness state (alive or dead)
  and a failure counter; \<open>markDead\<close>, \<open>markAlive\<close> and \<open>markHealthy\<close> mutate the
  liveness state of one entry, and \<open>markHealthy\<close> additionally clears the failure
  counter. The spec does not say what marking dead does to the counter; here it
  counts one more failure, and nothing proved below depends on that.
\<close>

record conn =
  nodeID :: string
  url :: string
  failures :: int
  dead :: bool

definition MarkAsDead :: "conn \<Rightarrow> conn" where
  "MarkAsDead c = c\<lparr>dead := True, failures := failures c + 1\<rparr>"

definition MarkAsAlive :: "conn \<Rightarrow> conn" where
  "MarkAsAlive c = c\<lparr>dead := False\<rparr>"

definition MarkAsHealthy :: "conn \<Rightarrow> conn" where
  "MarkAsHealthy c = c\<lparr>dead := False, failures := 0\<rparr>"

definition IsDead :: "conn \<Rightarrow> bool" where
  "IsDead c = dead c"


section \<open>The client\<close>

text \<open>
  The client holds pointers to its connections (\<open>[]*conn\<close>), and the same
  \<open>*conn\<close> may be held by the pool, by a caller and by a list handed to
  \<open>updateConns\<close>. So connections live in a store, from addresses to \<open>conn\<close>
  values, and the pool is a list of addresses.
\<close>

type_synonym addr = nat

text \<open>What the client writes to its loggers: the format string, as a constructor,
  with its arguments.\<close>

datatype log_msg =
    AllNodesDeadResurrecting nat
  | NodeIsDead string
  | NodeIsDeadStatus string int
  | JoinedTheCluster string
  | CannotCreateRequest string string error
  | CannotSetBody string error
  | CannotGetConnection
  | DeprecationWarning string
  | RequestInfo string string int

datatype log_entry = ErrorLog log_msg | InfoLog log_msg

text \<open>
  A \<open>Retrier\<close> (an interface declared outside the source files) is taken as its
  \<open>Retry\<close> method: from the attempt number, the request, the response and the
  error to the time to wait, whether to retry, and a fatal error.
\<close>

type_synonym Retrier =
  "int \<Rightarrow> http_request option \<Rightarrow> http_response option \<Rightarrow> error option
     \<Rightarrow> int \<times> bool \<times> error option"

text \<open>
  The fields of \<open>Client\<close> that the connection layer reads or writes. \<open>errorlog\<close>
  and \<open>infolog\<close> say whether a logger is set (non-nil). Four more fields record
  what the client did to the outside world, in order: the lines written to the
  loggers, the requests handed to the \<open>Doer\<close>, the attempt numbers the retrier
  was asked about, and the durations slept.
\<close>

record Client =
  conns :: "addr list"
  cindex :: int
  heap :: "addr \<Rightarrow> conn"
  urls :: "string list"
  errorlog :: bool
  infolog :: bool
  healthcheckEnabled :: bool
  healthcheckTimeout :: int
  snifferEnabled :: bool
  sendGetBodyAs :: string
  gzipEnabled :: bool
  retrier :: Retrier
  retryStatusCodes :: "int list"
  logged :: "log_entry list"
  sent :: "http_request list"
  consulted :: "int list"
  slept :: "int list"

definition errorf :: "log_msg \<Rightarrow> Client \<Rightarrow> Client" where
  "errorf m c = (if errorlog c then c\<lparr>logged := logged c @ [ErrorLog m]\<rparr> else c)"

definition infof :: "log_msg \<Rightarrow> Client \<Rightarrow> Client" where
  "infof m c = (if infolog c then c\<lparr>logged := logged c @ [InfoLog m]\<rparr> else c)"

text \<open>Calling a method of the connection at an address.\<close>

definition at :: "addr \<Rightarrow> (conn \<Rightarrow> conn) \<Rightarrow> Client \<Rightarrow> Client" where
  "at a f c = c\<lparr>heap := (heap c)(a := f (heap c a))\<rparr>"


section \<open>updateConns\<close>





section \<open>next\<close>

text \<open>
  The result of the scanning loop of \<open>next\<close>: a connection that is not dead, the
  loop left after \<open>numConns\<close> rounds, or Go's panic on an index out of range.
\<close>

datatype scan = Found addr | AllVisited | IndexOutOfRange

text \<open>
  The \<open>for\<close> loop of \<open>next\<close>; \<open>i\<close> is the loop counter before its increment. Go's
  \<open>int\<close> has 64 bits and the model's integers are unbounded: they agree as long
  as the cursor is within the pool (from \<open>-1\<close> to the last position), where
  \<open>NewClient\<close>, \<open>updateConns\<close> and \<open>next\<close> itself leave it.
\<close>

function next_loop :: "int \<Rightarrow> Client \<Rightarrow> scan \<times> Client" where
  "next_loop i c =
     (let i' = i + 1; numConns = int (length (conns c)) in
      if i' > numConns then (AllVisited, c)
      else
        let ci = cindex c + 1;
            ci = (if ci \<ge> numConns then 0 else ci);
            c' = c\<lparr>cindex := ci\<rparr>
        in if ci < 0 \<or> ci \<ge> numConns then (IndexOutOfRange, c')
           else if \<not> IsDead (heap c' (conns c' ! nat ci)) then (Found (conns c' ! nat ci), c')
           else next_loop i' c')"
  by pat_completeness auto
termination
  by (relation "measure (\<lambda>(i, c). nat (int (length (conns c)) - i))") auto

text \<open>\<open>for _, conn := range c.conns { conn.MarkAsAlive() }\<close>\<close>

fun MarkAsAlive_all :: "addr list \<Rightarrow> Client \<Rightarrow> Client" where
  "MarkAsAlive_all [] c = c"
| "MarkAsAlive_all (a # as) c = MarkAsAlive_all as (at a MarkAsAlive c)"

text \<open>The result of \<open>next\<close>: a connection, an error, or the panic of the loop.\<close>

datatype next_result = NextConn addr | NextErr error | NextPanic

definition Client_next :: "Client \<Rightarrow> next_result \<times> Client" where
  "Client_next c =
     (case next_loop 0 c of
        (Found a, c') \<Rightarrow> (NextConn a, c')
      | (IndexOutOfRange, c') \<Rightarrow> (NextPanic, c')
      | (AllVisited, c') \<Rightarrow>
          (let c'' = (if \<not> snifferEnabled c'
                      then MarkAsAlive_all (conns c')
                             (errorf (AllNodesDeadResurrecting (length (conns c'))) c')
                      else c')
           in (NextErr (ErrorsWrap ErrNoClient ''no available connection''), c'')))"


section \<open>The outside world\<close>

text \<open>
  Modelled from the spec: \<open>Response\<close> and \<open>newResponse\<close> are declared in a file
  that is not among the sources; \<open>PerformRequest\<close> reads only the status code of
  the response it hands back, so a \<open>Response\<close> is its status code and its body.
\<close>

record Response =
  RStatusCode :: int
  RBody :: "string option"

text \<open>
  What the client cannot decide itself is a parameter:
  \<^item> \<open>Do k req\<close> is what the \<open>Doer\<close> \<open>c.c\<close> returns for \<open>req\<close> when \<open>k\<close> requests were
    handed to it before: a response, an error, or both;
  \<^item> \<open>ctxDone k\<close> says whether the \<open>select\<close> of \<open>healthcheck\<close> takes the branch
    \<open>ctx.Done()\<close> (the timeout) for the probe started after \<open>k\<close> requests;
  \<^item> \<open>NewRequest\<close>, \<open>SetBody\<close> and \<open>newResponse\<close> are functions of the repository
    that are not among the sources, \<open>http_NewRequest\<close> is \<open>http.NewRequest\<close>;
  \<^item> \<open>startupSelect r\<close> is the outcome of the \<open>select\<close> that ends round \<open>r\<close> of
    \<open>startupHealthcheck\<close>.
\<close>

datatype select_outcome =
    ParentCanceled
  | ParentDeadlineExceeded
  | TimeAfter bool

record world =
  Do :: "nat \<Rightarrow> http_request \<Rightarrow> http_response option \<times> error option"
  ctxDone :: "nat \<Rightarrow> bool"
  NewRequest :: "string \<Rightarrow> string \<Rightarrow> error + http_request"
  http_NewRequest :: "string \<Rightarrow> string \<Rightarrow> error + http_request"
  SetBody :: "http_request \<Rightarrow> string \<Rightarrow> bool \<Rightarrow> error + http_request"
  newResponse :: "http_response \<Rightarrow> int \<Rightarrow> bool \<Rightarrow> Response option \<times> error option"
  startupSelect :: "nat \<Rightarrow> select_outcome"

text \<open>Handing a request to the \<open>Doer\<close>.\<close>

definition c_Do :: "world \<Rightarrow> http_request \<Rightarrow> Client
    \<Rightarrow> (http_response option \<times> error option) \<times> Client" where
  "c_Do w req c = (Do w (length (sent c)) req, c\<lparr>sent := sent c @ [req]\<rparr>)"


section \<open>healthcheck\<close>

text \<open>The goroutine of \<open>healthcheck\<close>: it builds and sends the HEAD request and
  leaves the error in \<open>errc\<close> and the status code in \<open>status\<close>.\<close>

definition healthcheck_goroutine :: "world \<Rightarrow> string \<Rightarrow> Client
    \<Rightarrow> (error option \<times> int) \<times> Client" where
  "healthcheck_goroutine w u c =
     (case NewRequest w ''HEAD'' u of
        Inl err \<Rightarrow> ((Some err, 0), c)
      | Inr req \<Rightarrow>
          (case c_Do w req c of
             ((res, err), c') \<Rightarrow>
               ((err, (case res of None \<Rightarrow> 0 | Some r \<Rightarrow> StatusCode r)), c')))"

text \<open>The outcome of one probe, as the \<open>select\<close> sees it.\<close>

datatype probe = ProbeTimeout | ProbeError error | ProbeStatus int

definition healthcheck_probe :: "world \<Rightarrow> addr \<Rightarrow> Client \<Rightarrow> probe \<times> Client" where
  "healthcheck_probe w a c =
     (let k = length (sent c) in
      case healthcheck_goroutine w (url (heap c a)) c of
        ((err, status), c') \<Rightarrow>
          (if ctxDone w k then (ProbeTimeout, c')
           else case err of
                  Some e \<Rightarrow> (ProbeError e, c')
                | None \<Rightarrow> (ProbeStatus status, c')))"

text \<open>The body of the loop over the connections: the probe and the \<open>select\<close>.\<close>

definition healthcheck_conn :: "world \<Rightarrow> addr \<Rightarrow> Client \<Rightarrow> Client" where
  "healthcheck_conn w a c =
     (case healthcheck_probe w a c of
        (ProbeTimeout, c') \<Rightarrow> at a MarkAsDead (errorf (NodeIsDead (url (heap c' a))) c')
      | (ProbeError e, c') \<Rightarrow> at a MarkAsDead (errorf (NodeIsDead (url (heap c' a))) c')
      | (ProbeStatus status, c') \<Rightarrow>
          (if status \<ge> 200 \<and> status < 300 then at a MarkAsAlive c'
           else errorf (NodeIsDeadStatus (url (heap c' a)) status) (at a MarkAsDead c')))"

fun healthcheck_conns :: "world \<Rightarrow> addr list \<Rightarrow> Client \<Rightarrow> Client" where
  "healthcheck_conns w [] c = c"
| "healthcheck_conns w (a # as) c = healthcheck_conns w as (healthcheck_conn w a c)"

definition healthcheck :: "world \<Rightarrow> bool \<Rightarrow> Client \<Rightarrow> Client" where
  "healthcheck w force c =
     (if \<not> healthcheckEnabled c \<and> \<not> force then c
      else healthcheck_conns w (conns c) c)"


section \<open>startupHealthcheck\<close>

text \<open>What a function returns: Go's \<open>(*Response, error)\<close>, or a panic on a nil
  pointer. \<open>startupHealthcheck\<close> returns an error only: its results have no
  response.\<close>

datatype result = Return "Response option" "error option" | Panic

text \<open>
  One pass over the URLs: the function returns from inside the loop, panics on
  a nil response without an error, or the pass ends with a new \<open>lastErr\<close>.
\<close>

datatype pass = PassReturn "error option" | PassPanic | PassEnd "error option"

fun startupHealthcheck_urls :: "world \<Rightarrow> string list \<Rightarrow> error option \<Rightarrow> Client
    \<Rightarrow> pass \<times> Client" where
  "startupHealthcheck_urls w [] lastErr c = (PassEnd lastErr, c)"
| "startupHealthcheck_urls w (u # us) lastErr c =
     (case http_NewRequest w ''HEAD'' u of
        Inl err \<Rightarrow> (PassReturn (Some err), c)
      | Inr req \<Rightarrow>
          (case c_Do w req c of
             ((res, Some err), c') \<Rightarrow> startupHealthcheck_urls w us (Some err) c'
           | ((None, None), c') \<Rightarrow> (PassPanic, c')
           | ((Some r, None), c') \<Rightarrow>
               (if StatusCode r \<ge> 200 \<and> StatusCode r < 300 then (PassReturn None, c')
                else if StatusCode r = 401
                  then startupHealthcheck_urls w us (Some (ElasticError (StatusCode r) None)) c'
                else startupHealthcheck_urls w us lastErr c')))"

text \<open>The statements after the loop.\<close>

definition startupHealthcheck_end :: "error option \<Rightarrow> error option" where
  "startupHealthcheck_end lastErr =
     (case lastErr of
        Some e \<Rightarrow>
          (if IsContextErr lastErr \<or> IsUnauthorized lastErr then lastErr
           else Some (ErrorsWrapf ErrNoClient ''health check timeout: %v'' e))
      | None \<Rightarrow> Some (ErrorsWrap ErrNoClient ''health check timeout''))"

text \<open>
  The loop \<open>for !done\<close>. Nothing in the code bounds the number of its rounds (the
  timer decides), so the model counts them down from \<open>fuel\<close> and answers \<open>None\<close>
  when they do not suffice. \<open>round\<close> numbers the rounds from 0.
\<close>

fun startupHealthcheck_loop :: "world \<Rightarrow> nat \<Rightarrow> nat \<Rightarrow> error option \<Rightarrow> Client
    \<Rightarrow> (result \<times> Client) option" where
  "startupHealthcheck_loop w 0 round lastErr c = None"
| "startupHealthcheck_loop w (Suc fuel) round lastErr c =
     (case startupHealthcheck_urls w (urls c) lastErr c of
        (PassReturn r, c') \<Rightarrow> Some (Return None r, c')
      | (PassPanic, c') \<Rightarrow> Some (Panic, c')
      | (PassEnd lastErr', c') \<Rightarrow>
          (case startupSelect w round of
             ParentCanceled \<Rightarrow>
               Some (Return None (startupHealthcheck_end (Some ContextCanceled)), c')
           | ParentDeadlineExceeded \<Rightarrow>
               Some (Return None (startupHealthcheck_end (Some ContextDeadlineExceeded)), c')
           | TimeAfter elapsed \<Rightarrow>
               (if elapsed then Some (Return None (startupHealthcheck_end lastErr'), c')
                else startupHealthcheck_loop w fuel (Suc round) lastErr' c')))"

definition startupHealthcheck :: "world \<Rightarrow> nat \<Rightarrow> Client \<Rightarrow> (result \<times> Client) option" where
  "startupHealthcheck w fuel c = startupHealthcheck_loop w fuel 0 None c"


section \<open>PerformRequest\<close>

record PerformRequestOptions =
  Method :: string
  Path :: string
  Params :: string
  OptBody :: "string option"
  IgnoreErrors :: "int list"
  OptRetrier :: "Retrier option"
  RetryStatusCodes :: "int list option"
  MaxResponseSize :: int
  Stream :: bool

text \<open>The closure \<open>retry\<close>: is the status code one of \<open>retryStatusCodes\<close>?\<close>

fun retry :: "int list \<Rightarrow> int \<Rightarrow> bool" where
  "retry [] statusCode = False"
| "retry (code # codes) statusCode = (if code = statusCode then True else retry codes statusCode)"

text \<open>\<open>retrier.Retry(ctx, n, req, res, err)\<close> and \<open>time.Sleep(wait)\<close>.\<close>

definition Retry :: "Retrier \<Rightarrow> int \<Rightarrow> http_request option \<Rightarrow> http_response option
    \<Rightarrow> error option \<Rightarrow> Client \<Rightarrow> (int \<times> bool \<times> error option) \<times> Client" where
  "Retry r n req res err c = (r n req res err, c\<lparr>consulted := consulted c @ [n]\<rparr>)"

definition Sleep :: "int \<Rightarrow> Client \<Rightarrow> Client" where
  "Sleep wait c = c\<lparr>slept := slept c @ [wait]\<rparr>"

text \<open>The deprecation warnings of a response, logged as errors.\<close>

fun log_warnings :: "string list \<Rightarrow> Client \<Rightarrow> Client" where
  "log_warnings [] c = c"
| "log_warnings (warning # rest) c = log_warnings rest (errorf (DeprecationWarning warning) c)"

text \<open>
  The end of an iteration whose response is neither an error of the transport
  nor retried: the deferred \<open>res.Body.Close()\<close>, the warnings, \<open>checkResponse\<close>,
  \<open>MarkAsHealthy\<close>, \<open>newResponse\<close>, and the info line written after the loop.
  When the call does not stream, \<open>defer res.Body.Close()\<close> evaluates the method
  \<open>Close\<close> of \<open>res.Body\<close>; on a nil body that is a method of a nil interface, and
  the statement panics before anything else of the iteration's end has run.
  Closing a body that is there changes nothing that the client reads. The
  dumps to the trace log and the call of the deprecation callback write nothing
  that the client reads again and are left out.
\<close>

definition PerformRequest_response :: "world \<Rightarrow> PerformRequestOptions \<Rightarrow> addr
    \<Rightarrow> http_request \<Rightarrow> http_response \<Rightarrow> Client \<Rightarrow> result \<times> Client" where
  "PerformRequest_response w opt a req res c =
     (if \<not> Stream opt \<and> Body res = None then (Panic, c)
      else
        let c1 = (if length (Warning res) > 0 then log_warnings (Warning res) c else c) in
        case checkResponse res (IgnoreErrors opt) of
          Some err \<Rightarrow>
            (Return (fst (newResponse w res (MaxResponseSize opt) (Stream opt))) (Some err), c1)
        | None \<Rightarrow>
            (let c2 = at a MarkAsHealthy c1 in
             case newResponse w res (MaxResponseSize opt) (Stream opt) of
               (resp, Some err) \<Rightarrow> (Return None (Some err), c2)
             | (None, None) \<Rightarrow> (Panic, c2)
             | (Some resp, None) \<Rightarrow>
                 (Return (Some resp) None,
                  infof (RequestInfo (Method opt) (ReqURL req) (RStatusCode resp)) c2)))"

text \<open>Building the request: \<open>NewRequest\<close>, then \<open>SetBody\<close> if there is a body.\<close>

definition PerformRequest_request :: "world \<Rightarrow> PerformRequestOptions \<Rightarrow> bool \<Rightarrow> string
    \<Rightarrow> Client \<Rightarrow> (error + http_request) \<times> Client" where
  "PerformRequest_request w opt gz target c =
     (case NewRequest w (Method opt) target of
        Inl err \<Rightarrow> (Inl err, errorf (CannotCreateRequest (Method opt) target err) c)
      | Inr req \<Rightarrow>
          (case OptBody opt of
             None \<Rightarrow> (Inr req, c)
           | Some b \<Rightarrow>
               (case SetBody w req b gz of
                  Inl err \<Rightarrow> (Inl err, errorf (CannotSetBody b err) c)
                | Inr req' \<Rightarrow> (Inr req', c))))"

text \<open>The path of the request with its encoded parameters; \<open>Params\<close> is the
  encoded form of \<open>opt.Params\<close>, empty when there are none.\<close>

definition pathWithParams :: "PerformRequestOptions \<Rightarrow> string" where
  "pathWithParams opt =
     Path opt @ (if length (Params opt) > 0 then ''?'' @ Params opt else [])"

text \<open>
  The loop of \<open>PerformRequest\<close>, with its variables \<open>n\<close> and \<open>retried\<close>, and with
  the retrier, the retry status codes and the two flags read from the client
  before it. A retrier that always retries keeps the loop running for ever, so
  the model counts iterations down from \<open>fuel\<close> and answers \<open>None\<close> when they do
  not suffice.
\<close>

fun PerformRequest_loop :: "world \<Rightarrow> PerformRequestOptions \<Rightarrow> Retrier \<Rightarrow> int list
    \<Rightarrow> bool \<Rightarrow> bool \<Rightarrow> nat \<Rightarrow> int \<Rightarrow> bool \<Rightarrow> Client \<Rightarrow> (result \<times> Client) option" where
  "PerformRequest_loop w opt retr codes hcEnabled gz 0 n retried c = None"
| "PerformRequest_loop w opt retr codes hcEnabled gz (Suc fuel) n retried c =
     (case Client_next c of
        (NextPanic, c1) \<Rightarrow> Some (Panic, c1)
      | (NextErr err, c1) \<Rightarrow>
          (if Cause err = ErrNoClient then
             (let c2 = (if \<not> retried then healthcheck w False c1 else c1) in
              if \<not> retried \<and> hcEnabled
              then PerformRequest_loop w opt retr codes hcEnabled gz fuel (n + 1) True c2
              else
                case Retry retr (n + 1) None None (Some err) c2 of
                  ((wait, ok, Some rerr), c3) \<Rightarrow> Some (Return None (Some rerr), c3)
                | ((wait, ok, None), c3) \<Rightarrow>
                    (if \<not> ok then Some (Return None (Some err), c3)
                     else PerformRequest_loop w opt retr codes hcEnabled gz fuel (n + 1) True
                            (Sleep wait c3)))
           else Some (Return None (Some err), errorf CannotGetConnection c1))
      | (NextConn a, c1) \<Rightarrow>
          (case PerformRequest_request w opt gz (url (heap c1 a) @ pathWithParams opt) c1 of
             (Inl err, c2) \<Rightarrow> Some (Return None (Some err), c2)
           | (Inr req, c2) \<Rightarrow>
               (case c_Do w req c2 of
                  ((res, err), c3) \<Rightarrow>
                    (if IsContextErr err then Some (Return None err, c3)
                     else
                       case err of
                         Some e \<Rightarrow>
                           (case Retry retr (n + 1) (Some req) res err c3 of
                              ((wait, ok, Some rerr), c4) \<Rightarrow>
                                Some (Return None (Some rerr),
                                      at a MarkAsDead (errorf (NodeIsDead (url (heap c4 a))) c4))
                            | ((wait, ok, None), c4) \<Rightarrow>
                                (if \<not> ok
                                 then Some (Return None (Some e),
                                        at a MarkAsDead (errorf (NodeIsDead (url (heap c4 a))) c4))
                                 else PerformRequest_loop w opt retr codes hcEnabled gz fuel
                                        (n + 1) True (Sleep wait c4)))
                       | None \<Rightarrow>
                           (case res of
                              None \<Rightarrow> Some (Panic, c3)
                            | Some r \<Rightarrow>
                                (if retry codes (StatusCode r) then
                                   (case Retry retr (n + 1) (Some req) res err c3 of
                                      ((wait, ok, Some rerr), c4) \<Rightarrow>
                                        Some (Return None (Some rerr),
                                              at a MarkAsDead
                                                (errorf (NodeIsDead (url (heap c4 a))) c4))
                                    | ((wait, ok, None), c4) \<Rightarrow>
                                        (if ok
                                         then PerformRequest_loop w opt retr codes hcEnabled gz
                                                fuel (n + 1) True (Sleep wait c4)
                                         else Some (PerformRequest_response w opt a req r c4)))
                                 else Some (PerformRequest_response w opt a req r c3)))))))"

text \<open>\<open>PerformRequest\<close>: what is read from the client under its lock, the change
  of the method for a GET with a body, and the loop.\<close>

definition PerformRequest :: "world \<Rightarrow> nat \<Rightarrow> PerformRequestOptions \<Rightarrow> Client
    \<Rightarrow> (result \<times> Client) option" where
  "PerformRequest w fuel opt c =
     (let retr = (case OptRetrier opt of Some r \<Rightarrow> r | None \<Rightarrow> retrier c);
          codes = (case RetryStatusCodes opt of Some cs \<Rightarrow> cs | None \<Rightarrow> retryStatusCodes c);
          opt' = (if Method opt = ''GET'' \<and> OptBody opt \<noteq> None \<and> sendGetBodyAs c \<noteq> ''GET''
                  then opt\<lparr>Method := sendGetBodyAs c\<rparr> else opt)
      in PerformRequest_loop w opt' retr codes (healthcheckEnabled c) (gzipEnabled c)
           fuel 0 False c)"


section \<open>Vocabulary of the properties\<close>

subsection \<open>Round robin\<close>

text \<open>
  For the statement of the round robin: the positions of the pool whose
  connections are not dead, in pool order; how many of them are at or before
  the cursor; and the results of \<open>k\<close> calls of \<open>next\<close>, one after the other.
\<close>

definition live :: "Client \<Rightarrow> nat list" where
  "live c = filter (\<lambda>j. \<not> IsDead (heap c (conns c ! j))) [0..<length (conns c)]"

definition rank :: "Client \<Rightarrow> nat" where
  "rank c = length (filter (\<lambda>j. \<not> IsDead (heap c (conns c ! j))) [0..<nat (cindex c + 1)])"

fun next_n :: "nat \<Rightarrow> Client \<Rightarrow> next_result list" where
  "next_n 0 c = []"
| "next_n (Suc k) c = (case Client_next c of (r, c') \<Rightarrow> r # next_n k c')"

text \<open>The connection at the live position that call number \<open>i\<close> of \<open>next\<close> reaches
  (calls are numbered from 0).\<close>

definition selected :: "Client \<Rightarrow> nat \<Rightarrow> addr" where
  "selected c i = conns c ! (live c ! ((rank c + i) mod length (live c)))"

subsection \<open>The startup check\<close>

text \<open>
  For the statement of what the startup check returns: what the request number
  \<open>k\<close> of the trace \<open>tr\<close> leaves in \<open>lastErr\<close> when its answer is no status in
  [200, 299] (the error of the \<open>Doer\<close>, an \<open>Error\<close> with the status 401, or the
  value that \<open>lastErr\<close> had), and the value of \<open>lastErr\<close> after the requests from
  number \<open>from\<close> on, starting from \<open>lastErr\<close>.
\<close>

definition recorded :: "world \<Rightarrow> http_request list \<Rightarrow> error option \<Rightarrow> nat \<Rightarrow> error option" where
  "recorded w tr lastErr k =
     (case Do w k (tr ! k) of
        (res, Some err) \<Rightarrow> Some err
      | (Some r, None) \<Rightarrow> if StatusCode r = 401 then Some (ElasticError 401 None) else lastErr
      | (None, None) \<Rightarrow> lastErr)"

definition lastRecorded :: "world \<Rightarrow> http_request list \<Rightarrow> error option \<Rightarrow> nat \<Rightarrow> error option" where
  "lastRecorded w tr lastErr from = foldl (recorded w tr) lastErr [from..<length tr]"

text \<open>
  What one pass over the URLs, from \<open>c\<close> to \<open>c'\<close>, has done: it has sent requests
  and nothing else; if it ends, \<open>lastErr\<close> is what its requests left there; if
  it returns nil, its last request was answered with a status in [200, 299];
  if it returns an error, that is the error of \<open>http.NewRequest\<close> for one of
  the URLs.
\<close>

definition pass_ok :: "world \<Rightarrow> string list \<Rightarrow> error option \<Rightarrow> Client \<Rightarrow> pass \<Rightarrow> Client \<Rightarrow> bool" where
  "pass_ok w us lastErr c p c' \<longleftrightarrow>
     (\<exists>reqs. sent c' = sent c @ reqs) \<and> urls c' = urls c \<and>
     (case p of
        PassEnd e \<Rightarrow> e = lastRecorded w (sent c') lastErr (length (sent c))
      | PassReturn None \<Rightarrow>
          length (sent c) < length (sent c') \<and>
          (\<exists>r. Do w (length (sent c') - 1) (last (sent c')) = (Some r, None) \<and>
               200 \<le> StatusCode r \<and> StatusCode r < 300)
      | PassReturn (Some e) \<Rightarrow> (\<exists>u \<in> set us. http_NewRequest w ''HEAD'' u = Inl e)
      | PassPanic \<Rightarrow> True)"

text \<open>
  What \<open>startupHealthcheck\<close> has done when it returns \<open>res\<close>, from \<open>c\<close> with
  \<open>lastErr\<close> to \<open>c'\<close>: it has sent requests, and it panics (a nil response
  without an error), or returns nil after a request answered with a status in
  [200, 299], or returns the error of \<open>http.NewRequest\<close> for one of the URLs, or
  returns the error of the calling context as it is (a \<open>select\<close> has found the
  context done), or (a timer has found the timeout elapsed) returns what the
  statements after the loop make of the last error that the requests left in
  \<open>lastErr\<close>.
\<close>

definition startup_ok :: "world \<Rightarrow> error option \<Rightarrow> Client \<Rightarrow> result \<Rightarrow> Client \<Rightarrow> bool" where
  "startup_ok w lastErr c res c' \<longleftrightarrow>
     (\<exists>reqs. sent c' = sent c @ reqs) \<and> urls c' = urls c \<and>
     (res = Panic \<or>
      res = Return None None \<and> length (sent c) < length (sent c') \<and>
        (\<exists>r. Do w (length (sent c') - 1) (last (sent c')) = (Some r, None) \<and>
             200 \<le> StatusCode r \<and> StatusCode r < 300) \<or>
      (\<exists>u \<in> set (urls c). \<exists>e. http_NewRequest w ''HEAD'' u = Inl e \<and>
         res = Return None (Some e)) \<or>
      (\<exists>k. startupSelect w k = ParentCanceled) \<and> res = Return None (Some ContextCanceled) \<or>
      (\<exists>k. startupSelect w k = ParentDeadlineExceeded) \<and>
        res = Return None (Some ContextDeadlineExceeded) \<or>
      (\<exists>k. startupSelect w k = TimeAfter True) \<and>
        res = Return None
                (startupHealthcheck_end (lastRecorded w (sent c') lastErr (length (sent c)))))"

text \<open>
  For the statement of what the startup check does with given answers. An
  answer fails when it is an error, or a response with a status outside
  [200, 299]; a nil response without an error (on which the check panics) is
  set apart and does not count as failing.
\<close>

definition failed :: "http_response option \<times> error option \<Rightarrow> bool" where
  "failed answer =
     (case answer of
        (res, Some err) \<Rightarrow> True
      | (Some r, None) \<Rightarrow> \<not> (200 \<le> StatusCode r \<and> StatusCode r < 300)
      | (None, None) \<Rightarrow> False)"

text \<open>
  When every pass sends one request for each URL, the request for the URL at
  position \<open>i\<close> in pass \<open>r\<close> (both counted from 0) is request number
  \<open>length (sent c) + r * length (urls c) + i\<close> of the client: \<open>probe\<close> is the answer of
  the \<open>Doer\<close> to it, \<open>mk\<close> being the request that \<open>http.NewRequest\<close> builds for a
  URL. \<open>probes mk c R j\<close> are the requests of \<open>R\<close> whole passes followed by those
  for the first \<open>j\<close> URLs.
\<close>

definition probe :: "world \<Rightarrow> (string \<Rightarrow> http_request) \<Rightarrow> Client \<Rightarrow> nat \<Rightarrow> nat
    \<Rightarrow> http_response option \<times> error option" where
  "probe w mk c r i = Do w (length (sent c) + r * length (urls c) + i) (mk (urls c ! i))"

definition probes :: "(string \<Rightarrow> http_request) \<Rightarrow> Client \<Rightarrow> nat \<Rightarrow> nat \<Rightarrow> http_request list" where
  "probes mk c R j = concat (replicate R (map mk (urls c))) @ map mk (take j (urls c))"

text \<open>
  \<open>passes_fail w mk c R j\<close>: \<open>http.NewRequest\<close> builds the request \<open>mk u\<close> for every URL
  \<open>u\<close>; in each of the passes 0 to \<open>R - 1\<close> every answer fails and the \<open>select\<close>
  after the pass finds neither the calling context done nor the timeout
  elapsed; and in pass \<open>R\<close> the answers for the first \<open>j\<close> URLs fail.
\<close>

definition passes_fail :: "world \<Rightarrow> (string \<Rightarrow> http_request) \<Rightarrow> Client \<Rightarrow> nat \<Rightarrow> nat \<Rightarrow> bool" where
  "passes_fail w mk c R j \<longleftrightarrow>
     (\<forall>u \<in> set (urls c). http_NewRequest w ''HEAD'' u = Inr (mk u)) \<and>
     (\<forall>r \<in> {0..<R}. (\<forall>i \<in> {0..<length (urls c)}. failed (probe w mk c r i)) \<and>
                      startupSelect w r = TimeAfter False) \<and>
     (\<forall>i \<in> {0..<j}. failed (probe w mk c R i))"


section \<open>Example clients and worlds\<close>

text \<open>
  Modelled from the spec: \<open>newConn\<close> and \<open>NewStopRetrier\<close> are not among the
  sources. A new connection is alive and has no failures; the client's default
  retry policy never retries.
\<close>

definition newConn :: "string \<Rightarrow> string \<Rightarrow> conn" where
  "newConn i u = \<lparr>nodeID = i, url = u, failures = 0, dead = False\<rparr>"

definition noRetries :: Retrier where
  "noRetries n req res err = (0, False, None)"

text \<open>A retry policy that allows exactly \<open>k\<close> retries, without waiting.\<close>

definition retryUpTo :: "int \<Rightarrow> Retrier" where
  "retryUpTo k n req res err = (0, n \<le> k, None)"

text \<open>A client as \<open>NewSimpleClient\<close> sets it up, with an error log, over the given
  pool and store.\<close>

definition simpleClient :: "addr list \<Rightarrow> (addr \<Rightarrow> conn) \<Rightarrow> Client" where
  "simpleClient cs h =
     \<lparr>conns = cs, cindex = -1, heap = h, urls = [], errorlog = True, infolog = False,
      healthcheckEnabled = False, healthcheckTimeout = -1, snifferEnabled = False,
      sendGetBodyAs = ''GET'', gzipEnabled = False, retrier = noRetries,
      retryStatusCodes = [], logged = [], sent = [], consulted = [], slept = []\<rparr>"

text \<open>Three connections A, B and C at the addresses 0, 1 and 2.\<close>

definition heapABC :: "addr \<Rightarrow> conn" where
  "heapABC a =
     (if a = 0 then newConn ''A'' ''http://a:9200''
      else if a = 1 then newConn ''B'' ''http://b:9200''
      else newConn ''C'' ''http://c:9200'')"

definition allDead :: "(addr \<Rightarrow> conn) \<Rightarrow> addr \<Rightarrow> conn" where
  "allDead h a = MarkAsDead (h a)"



text \<open>
  A world over a given \<open>Doer\<close>: no probe times out, requests are built as asked
  for, a response is handed back with its status code, and the timer of the
  startup check fires with the timeout elapsed.
\<close>

definition simpleWorld :: "(nat \<Rightarrow> http_request \<Rightarrow> http_response option \<times> error option)
    \<Rightarrow> world" where
  "simpleWorld d =
     \<lparr>Do = d, ctxDone = (\<lambda>k. False),
      NewRequest = (\<lambda>m u. Inr \<lparr>ReqMethod = m, ReqURL = u, ReqBody = None\<rparr>),
      http_NewRequest = (\<lambda>m u. Inr \<lparr>ReqMethod = m, ReqURL = u, ReqBody = None\<rparr>),
      SetBody = (\<lambda>req b gz. Inr (req\<lparr>ReqBody := Some b\<rparr>)),
      newResponse = (\<lambda>res m s. (Some \<lparr>RStatusCode = StatusCode res, RBody = None\<rparr>, None)),
      startupSelect = (\<lambda>r. TimeAfter True)\<rparr>"

text \<open>A response with the given status code and an empty body, as the HTTP
  client of Go hands it back for a response without content: the body is there,
  and it does not decode.\<close>

definition status :: "int \<Rightarrow> http_response" where
  "status s = \<lparr>StatusCode = s, Body = Some UnmarshalFails, Warning = []\<rparr>"

text \<open>A \<open>Doer\<close> that answers the requests in turn from a list, and with a refused
  connection once the list is used up.\<close>

definition answers :: "(http_response option \<times> error option) list \<Rightarrow> nat \<Rightarrow> http_request
    \<Rightarrow> http_response option \<times> error option" where
  "answers xs k req =
     (if k < length xs then xs ! k else (None, Some (OtherError ''connection refused'')))"


text \<open>The options of a search request without a body.\<close>

definition searchOptions :: PerformRequestOptions where
  "searchOptions =
     \<lparr>Method = ''GET'', Path = ''/_search'', Params = [], OptBody = None, IgnoreErrors = [],
      OptRetrier = None, RetryStatusCodes = None, MaxResponseSize = 0, Stream = False\<rparr>"

text \<open>The request that \<open>simpleWorld\<close> builds from them for a connection's URL.\<close>

definition searchRequest :: "string \<Rightarrow> http_request" where
  "searchRequest u = \<lparr>ReqMethod = ''GET'', ReqURL = u @ ''/_search'', ReqBody = None\<rparr>"


text \<open>Two clients whose retry policy allows exactly two retries, over the pools
  [A, B] and [A, B, C].\<close>

definition clientAB :: Client where
  "clientAB = (simpleClient [0, 1] heapABC)\<lparr>retrier := retryUpTo 2\<rparr>"

definition clientABC :: Client where
  "clientABC = (simpleClient [0, 1, 2] heapABC)\<lparr>retrier := retryUpTo 2\<rparr>"




text \<open>A world whose startup timeout never elapses, and a client with the given
  seed URLs.\<close>

definition patientWorld :: "(nat \<Rightarrow> http_request \<Rightarrow> http_response option \<times> error option)
    \<Rightarrow> world" where
  "patientWorld d = (simpleWorld d)\<lparr>startupSelect := (\<lambda>r. TimeAfter False)\<rparr>"

definition seedClient :: "string list \<Rightarrow> Client" where
  "seedClient us = (simpleClient [] heapABC)\<lparr>urls := us\<rparr>"

definition headRequest :: "string \<Rightarrow> http_request" where
  "headRequest u = \<lparr>ReqMethod = ''HEAD'', ReqURL = u, ReqBody = None\<rparr>"

text \<open>
  Two seed URLs, and two worlds for them. In the first the timeout never
  elapses: the first pass is answered by 401 and by a timeout of the probe,
  the second by 503 and 200. In the second the timeout has elapsed after the
  first pass, which is answered by 503 and 401.
\<close>

definition seedAB :: Client where
  "seedAB = seedClient [''http://a:9200'', ''http://b:9200'']"

definition probedWorld :: world where
  "probedWorld = patientWorld (answers
     [(Some (status 401), None), (None, Some (UrlError True ContextDeadlineExceeded)),
      (Some (status 503), None), (Some (status 200), None)])"

definition deniedWorld :: world where
  "deniedWorld = simpleWorld (answers [(Some (status 503), None), (Some (status 401), None)])"


section \<open>Properties\<close>

subsection \<open>Fields that the helpers leave alone\<close>

declare next_loop.simps [simp del]

lemma at_fields [simp]:
  "conns (at a f c) = conns c" "cindex (at a f c) = cindex c"
  "logged (at a f c) = logged c" "sent (at a f c) = sent c"
  "consulted (at a f c) = consulted c" "slept (at a f c) = slept c"
  "snifferEnabled (at a f c) = snifferEnabled c" "errorlog (at a f c) = errorlog c"
  "infolog (at a f c) = infolog c" "healthcheckEnabled (at a f c) = healthcheckEnabled c"
  "urls (at a f c) = urls c"
  "heap (at a f c) = (heap c)(a := f (heap c a))"
  by (simp_all add: at_def)

lemma errorf_fields [simp]:
  "conns (errorf m c) = conns c" "cindex (errorf m c) = cindex c"
  "heap (errorf m c) = heap c" "sent (errorf m c) = sent c"
  "consulted (errorf m c) = consulted c" "slept (errorf m c) = slept c"
  "snifferEnabled (errorf m c) = snifferEnabled c" "errorlog (errorf m c) = errorlog c"
  "infolog (errorf m c) = infolog c" "healthcheckEnabled (errorf m c) = healthcheckEnabled c"
  "urls (errorf m c) = urls c"
  "logged (errorf m c) = logged c @ (if errorlog c then [ErrorLog m] else [])"
  by (simp_all add: errorf_def)

lemma MarkAsAlive_all_fields [simp]:
  "conns (MarkAsAlive_all as c) = conns c" "cindex (MarkAsAlive_all as c) = cindex c"
  "logged (MarkAsAlive_all as c) = logged c" "sent (MarkAsAlive_all as c) = sent c"
  "consulted (MarkAsAlive_all as c) = consulted c" "slept (MarkAsAlive_all as c) = slept c"
  "snifferEnabled (MarkAsAlive_all as c) = snifferEnabled c"
  "errorlog (MarkAsAlive_all as c) = errorlog c"
  by (induction as arbitrary: c; simp)+

lemma MarkAsAlive_all_heap:
  "heap (MarkAsAlive_all as c) a = (if a \<in> set as then MarkAsAlive (heap c a) else heap c a)"
  by (induction as arbitrary: c) (auto simp: MarkAsAlive_def)

lemma next_loop_all_dead:
  "\<forall>a \<in> set (conns c). IsDead (heap c a) \<Longrightarrow> -1 \<le> cindex c \<Longrightarrow> 0 \<le> i \<Longrightarrow>
   fst (next_loop i c) = AllVisited \<and>
   snd (next_loop i c) = c\<lparr>cindex := cindex (snd (next_loop i c))\<rparr> \<and>
   -1 \<le> cindex (snd (next_loop i c))"
proof (induction i c rule: next_loop.induct)
  case (1 i c)
  show ?case
  proof (cases "i + 1 > int (length (conns c))")
    case True
    with 1(2,3) show ?thesis
      by (subst (1 2 3 4) next_loop.simps) (simp add: Let_def)
  next
    case False
    define ci where "ci = (if cindex c + 1 \<ge> int (length (conns c)) then 0 else cindex c + 1)"
    have r: "0 \<le> ci" "ci < int (length (conns c))"
      using False 1(3,4) by (auto simp: ci_def)
    then have d: "IsDead (heap c (conns c ! nat ci))"
      using 1(2) by simp
    have step: "next_loop i c = next_loop (i + 1) (c\<lparr>cindex := ci\<rparr>)"
      using False r d by (subst next_loop.simps) (auto simp: Let_def ci_def)
    have "fst (next_loop (i + 1) (c\<lparr>cindex := ci\<rparr>)) = AllVisited \<and>
      snd (next_loop (i + 1) (c\<lparr>cindex := ci\<rparr>)) =
        c\<lparr>cindex := ci\<rparr>\<lparr>cindex := cindex (snd (next_loop (i + 1) (c\<lparr>cindex := ci\<rparr>)))\<rparr> \<and>
      -1 \<le> cindex (snd (next_loop (i + 1) (c\<lparr>cindex := ci\<rparr>)))"
      using 1(1)[of "i + 1" "int (length (conns c))" "cindex c + 1" ci "c\<lparr>cindex := ci\<rparr>"]
        False r d 1(2,3,4) by (simp add: ci_def)
    then show ?thesis
      unfolding step by simp
  qed
qed

lemma next_loop_alive_step:
  "conns c \<noteq> [] \<Longrightarrow> -1 \<le> cindex c \<Longrightarrow> \<forall>a \<in> set (conns c). \<not> IsDead (heap c a) \<Longrightarrow>
   \<exists>a c'. next_loop 0 c = (Found a, c') \<and> a \<in> set (conns c)"
  by (subst next_loop.simps) (auto simp: Let_def)


subsection \<open>next on a pool whose connections are all dead\<close>

text \<open>
  C1. In a pool whose connections are all marked dead (with the cursor where
  \<open>next\<close> and \<open>updateConns\<close> leave it, from \<open>-1\<close> to the last position of the
  pool), one call of \<open>next\<close>
  returns the error \<open>ErrNoClient\<close> wrapped with "no available connection" and
  keeps the pool's members. If sniffing is enabled, no connection changes and
  nothing is logged. If sniffing is disabled, every connection of the pool is
  marked alive (a bare \<open>MarkAsAlive\<close>, nothing else in the store changes), the
  resurrection is written to the error log (where an error logger is set), and,
  the pool having a member, the next call of \<open>next\<close> returns a connection of the
  pool.
\<close>

theorem next_all_dead:
  assumes dead: "\<forall>a \<in> set (conns c). IsDead (heap c a)"
    and cursor: "-1 \<le> cindex c"
    and range: "cindex c < int (length (conns c))"
  shows "fst (Client_next c) = NextErr (ErrorsWrap ErrNoClient ''no available connection'') \<and>
    conns (snd (Client_next c)) = conns c \<and>
    (snifferEnabled c \<longrightarrow>
       heap (snd (Client_next c)) = heap c \<and> logged (snd (Client_next c)) = logged c) \<and>
    (\<not> snifferEnabled c \<longrightarrow>
       (\<forall>a \<in> set (conns c). \<not> IsDead (heap (snd (Client_next c)) a)) \<and>
       (\<forall>a. heap (snd (Client_next c)) a =
          (if a \<in> set (conns c) then MarkAsAlive (heap c a) else heap c a)) \<and>
       logged (snd (Client_next c)) =
         logged c @ (if errorlog c
                     then [ErrorLog (AllNodesDeadResurrecting (length (conns c)))] else []) \<and>
       (conns c \<noteq> [] \<longrightarrow>
          (\<exists>a \<in> set (conns c). fst (Client_next (snd (Client_next c))) = NextConn a)))"
proof -
  obtain c1 where c1: "next_loop 0 c = (AllVisited, c1)" "c1 = c\<lparr>cindex := cindex c1\<rparr>" "-1 \<le> cindex c1"
    using next_loop_all_dead[OF dead cursor, of 0] by (cases "next_loop 0 c") auto
  have f1: "conns c1 = conns c" "heap c1 = heap c" "logged c1 = logged c"
    "snifferEnabled c1 = snifferEnabled c" "errorlog c1 = errorlog c"
    by (subst c1(2), simp)+
  show ?thesis
  proof (cases "snifferEnabled c")
    case True
    then show ?thesis using c1(1) f1 by (simp add: Client_next_def)
  next
    case False
    define c2 where "c2 = MarkAsAlive_all (conns c1) (errorf (AllNodesDeadResurrecting (length (conns c1))) c1)"
    have n: "Client_next c = (NextErr (ErrorsWrap ErrNoClient ''no available connection''), c2)"
      using False c1(1) f1 by (simp add: Client_next_def c2_def)
    have h: "heap c2 a = (if a \<in> set (conns c) then MarkAsAlive (heap c a) else heap c a)" for a
      by (simp add: c2_def MarkAsAlive_all_heap f1)
    have c2f: "conns c2 = conns c" "cindex c2 = cindex c1"
      "logged c2 = logged c @ (if errorlog c
                     then [ErrorLog (AllNodesDeadResurrecting (length (conns c)))] else [])"
      by (simp_all add: c2_def f1)
    have alive: "\<forall>a \<in> set (conns c2). \<not> IsDead (heap c2 a)"
      by (simp add: h c2f(1) IsDead_def MarkAsAlive_def)
    have again: "conns c \<noteq> [] \<Longrightarrow> \<exists>a \<in> set (conns c). fst (Client_next c2) = NextConn a"
    proof -
      assume ne: "conns c \<noteq> []"
      obtain a c3 where "next_loop 0 c2 = (Found a, c3)" "a \<in> set (conns c2)"
        using next_loop_alive_step[of c2] ne alive c2f c1(3) by auto
      then show ?thesis by (auto simp: Client_next_def c2f)
    qed
    show ?thesis
      using False n h alive c2f again by simp
  qed
qed

theorem next_all_dead_witness:
  "IsDead (heap (simpleClient [0, 1, 2] (allDead heapABC)) 0) \<and>
   IsDead (heap (simpleClient [0, 1, 2] (allDead heapABC)) 1) \<and>
   IsDead (heap (simpleClient [0, 1, 2] (allDead heapABC)) 2) \<and>
   -1 \<le> cindex (simpleClient [0, 1, 2] (allDead heapABC)) \<and>
   cindex (simpleClient [0, 1, 2] (allDead heapABC)) <
     int (length (conns (simpleClient [0, 1, 2] (allDead heapABC)))) \<and>
   \<not> snifferEnabled (simpleClient [0, 1, 2] (allDead heapABC)) \<and>
   fst (Client_next (simpleClient [0, 1, 2] (allDead heapABC))) =
     NextErr (ErrorsWrap ErrNoClient ''no available connection'') \<and>
   \<not> IsDead (heap (snd (Client_next (simpleClient [0, 1, 2] (allDead heapABC)))) 0) \<and>
   \<not> IsDead (heap (snd (Client_next (simpleClient [0, 1, 2] (allDead heapABC)))) 1) \<and>
   \<not> IsDead (heap (snd (Client_next (simpleClient [0, 1, 2] (allDead heapABC)))) 2) \<and>
   logged (snd (Client_next (simpleClient [0, 1, 2] (allDead heapABC)))) =
     [ErrorLog (AllNodesDeadResurrecting 3)] \<and>
   snifferEnabled (simpleClient [0, 1, 2] (allDead heapABC)\<lparr>snifferEnabled := True\<rparr>) \<and>
   fst (Client_next (simpleClient [0, 1, 2] (allDead heapABC)\<lparr>snifferEnabled := True\<rparr>)) =
     NextErr (ErrorsWrap ErrNoClient ''no available connection'') \<and>
   heap (snd (Client_next (simpleClient [0, 1, 2] (allDead heapABC)\<lparr>snifferEnabled := True\<rparr>))) =
     allDead heapABC"
  using next_all_dead [of "simpleClient [0, 1, 2] (allDead heapABC)"]
    next_all_dead [of "simpleClient [0, 1, 2] (allDead heapABC)\<lparr>snifferEnabled := True\<rparr>"]
  by (simp add: simpleClient_def allDead_def IsDead_def MarkAsDead_def MarkAsAlive_def)

subsection \<open>updateConns\<close>

lemma infof_fields [simp]:
  "conns (infof m c) = conns c" "cindex (infof m c) = cindex c"
  "heap (infof m c) = heap c" "sent (infof m c) = sent c"
  "consulted (infof m c) = consulted c" "slept (infof m c) = slept c"
  "snifferEnabled (infof m c) = snifferEnabled c" "errorlog (infof m c) = errorlog c"
  "infolog (infof m c) = infolog c" "healthcheckEnabled (infof m c) = healthcheckEnabled c"
  "urls (infof m c) = urls c"
  "logged (infof m c) = logged c @ (if infolog c then [InfoLog m] else [])"
  by (simp_all add: infof_def)








subsection \<open>healthcheck\<close>

lemma c_Do_fields [simp]:
  "conns (snd (c_Do w req c)) = conns c" "cindex (snd (c_Do w req c)) = cindex c"
  "heap (snd (c_Do w req c)) = heap c" "logged (snd (c_Do w req c)) = logged c"
  "consulted (snd (c_Do w req c)) = consulted c" "slept (snd (c_Do w req c)) = slept c"
  "snifferEnabled (snd (c_Do w req c)) = snifferEnabled c"
  "errorlog (snd (c_Do w req c)) = errorlog c"
  "infolog (snd (c_Do w req c)) = infolog c"
  "healthcheckEnabled (snd (c_Do w req c)) = healthcheckEnabled c"
  "urls (snd (c_Do w req c)) = urls c"
  "sent (snd (c_Do w req c)) = sent c @ [req]"
  "fst (c_Do w req c) = Do w (length (sent c)) req"
  by (simp_all add: c_Do_def)

lemma healthcheck_probe_heap [simp]:
  "heap (snd (healthcheck_probe w a c)) = heap c"
  "conns (snd (healthcheck_probe w a c)) = conns c"
  by (auto simp: healthcheck_probe_def healthcheck_goroutine_def c_Do_def Let_def
      split: sum.splits prod.splits option.splits)

lemma healthcheck_conn_heap:
  "heap (healthcheck_conn w a c) =
     (heap c)(a := (case fst (healthcheck_probe w a c) of
                      ProbeStatus s \<Rightarrow>
                        if s \<ge> 200 \<and> s < 300 then MarkAsAlive (heap c a) else MarkAsDead (heap c a)
                    | _ \<Rightarrow> MarkAsDead (heap c a)))"
  using healthcheck_probe_heap(1)[of w a c]
  by (cases "healthcheck_probe w a c")
     (auto simp: healthcheck_conn_def split: probe.splits)

lemma healthcheck_conns_other:
  "a \<notin> set as \<Longrightarrow> heap (healthcheck_conns w as c) a = heap c a"
  by (induction as arbitrary: c) (auto simp: healthcheck_conn_heap)

lemma healthcheck_conns_append:
  "healthcheck_conns w (xs @ ys) c = healthcheck_conns w ys (healthcheck_conns w xs c)"
  by (induction xs arbitrary: c) auto

text \<open>
  C6. In a sweep of \<open>healthcheck\<close> (health checks enabled, or forced), the
  liveness of a connection after the sweep is decided by the outcome of its
  (last) probe alone, whatever it was before: dead when the probe timed out,
  dead when the request failed with an error, alive when the status is in
  [200, 299], dead for any other status.
\<close>

theorem healthcheck_liveness:
  assumes "healthcheckEnabled c \<or> force"
    and "conns c = pre @ a # post"
    and "a \<notin> set post"
  shows "IsDead (heap (healthcheck w force c) a) =
     (case fst (healthcheck_probe w a (healthcheck_conns w pre c)) of
        ProbeTimeout \<Rightarrow> True
      | ProbeError e \<Rightarrow> True
      | ProbeStatus s \<Rightarrow> \<not> (s \<ge> 200 \<and> s < 300))"
proof -
  let ?c1 = "healthcheck_conns w pre c"
  have "healthcheck w force c = healthcheck_conns w post (healthcheck_conn w a ?c1)"
    using assms(1,2) by (auto simp: healthcheck_def healthcheck_conns_append)
  then have "heap (healthcheck w force c) a = heap (healthcheck_conn w a ?c1) a"
    using assms(3) by (simp add: healthcheck_conns_other)
  then show ?thesis
    by (simp add: healthcheck_conn_heap IsDead_def MarkAsAlive_def MarkAsDead_def
        split: probe.splits)
qed

theorem healthcheck_liveness_witness:
  "(healthcheckEnabled (simpleClient [0, 1, 2] (allDead heapABC)) \<or> True) \<and>
   conns (simpleClient [0, 1, 2] (allDead heapABC)) = [0] @ 1 # [2] \<and>
   1 \<notin> set [2 :: nat] \<and>
   fst (healthcheck_probe
          (simpleWorld (answers [(Some (status 200), None), (Some (status 503), None)])) 1
          (healthcheck_conns
             (simpleWorld (answers [(Some (status 200), None), (Some (status 503), None)])) [0]
             (simpleClient [0, 1, 2] (allDead heapABC)))) = ProbeStatus 503 \<and>
   IsDead (heap (healthcheck
                   (simpleWorld (answers [(Some (status 200), None), (Some (status 503), None)]))
                   True (simpleClient [0, 1, 2] (allDead heapABC))) 1) \<and>
   0 \<notin> set [1, 2 :: nat] \<and>
   fst (healthcheck_probe
          (simpleWorld (answers [(Some (status 200), None), (Some (status 503), None)])) 0
          (healthcheck_conns
             (simpleWorld (answers [(Some (status 200), None), (Some (status 503), None)])) []
             (simpleClient [0, 1, 2] (allDead heapABC)))) = ProbeStatus 200 \<and>
   \<not> IsDead (heap (healthcheck
                   (simpleWorld (answers [(Some (status 200), None), (Some (status 503), None)]))
                   True (simpleClient [0, 1, 2] (allDead heapABC))) 0)"
proof -
  let ?w = "simpleWorld (answers [(Some (status 200), None), (Some (status 503), None)])"
  let ?c = "simpleClient [0, 1, 2] (allDead heapABC)"
  have cs: "conns ?c = [0] @ 1 # [2]" "conns ?c = [] @ 0 # [1, 2]"
    by (simp_all add: simpleClient_def)
  have p1: "fst (healthcheck_probe ?w 1 (healthcheck_conns ?w [0] ?c)) = ProbeStatus 503"
    by (simp add: healthcheck_probe_def healthcheck_goroutine_def healthcheck_conn_def
        c_Do_def simpleWorld_def simpleClient_def answers_def status_def at_def Let_def)
  have p0: "fst (healthcheck_probe ?w 0 (healthcheck_conns ?w [] ?c)) = ProbeStatus 200"
    by (simp add: healthcheck_probe_def healthcheck_goroutine_def healthcheck_conn_def
        c_Do_def simpleWorld_def simpleClient_def answers_def status_def at_def Let_def)
  have d1: "IsDead (heap (healthcheck ?w True ?c) 1)"
    using healthcheck_liveness [of ?c True "[0]" 1 "[2]" ?w] cs(1) p1 by simp
  have d0: "\<not> IsDead (heap (healthcheck ?w True ?c) 0)"
    using healthcheck_liveness [of ?c True "[]" 0 "[1, 2]" ?w] cs(2) p0 by simp
  show ?thesis
    using cs(1) p1 p0 d1 d0 by simp
qed

subsection \<open>Round robin\<close>

lemma upt_0_Suc_map: "map f [0..<Suc r] = f 0 # map (\<lambda>d. f (Suc d)) [0..<r]"
  by (simp add: upt_conv_Cons map_Suc_upt[symmetric] del: upt_Suc)

lemma next_loop_find:
  "-1 \<le> cindex c \<Longrightarrow> cindex c < int (length (conns c)) \<Longrightarrow> 0 \<le> i \<Longrightarrow>
   find (\<lambda>j. \<not> IsDead (heap c (conns c ! j)))
     (map (\<lambda>d. (nat (cindex c + 1) + d) mod length (conns c))
        [0..<nat (int (length (conns c)) - i)]) = Some j \<Longrightarrow>
   next_loop i c = (Found (conns c ! j), c\<lparr>cindex := int j\<rparr>)"
proof (induction i c rule: next_loop.induct)
  case (1 i c)
  define n where "n = length (conns c)"
  define ci where "ci = nat (cindex c + 1) mod n"
  show ?case
  proof (cases "i + 1 > int n")
    case True
    with 1(5) show ?thesis by (simp add: n_def)
  next
    case False
    define r where "r = nat (int n - i) - 1"
    have r: "nat (int n - i) = Suc r" "nat (int n - (i + 1)) = r"
      using False 1(4) by (auto simp: r_def)
    have npos: "0 < n" using False 1(4) by auto
    have ci1: "ci < n" using npos by (simp add: ci_def)
    have ci2: "int ci = (if cindex c + 1 \<ge> int n then 0 else cindex c + 1)"
    proof (cases "cindex c + 1 \<ge> int n")
      case True
      then have "nat (cindex c + 1) = n" using 1(3) by (simp add: n_def)
      then show ?thesis using True by (simp add: ci_def)
    next
      case False
      then have "nat (cindex c + 1) < n" using 1(2) by (simp add: nat_less_iff)
      then show ?thesis using False 1(2) by (simp add: ci_def)
    qed
    have ci3: "(if int (length (conns c)) \<le> cindex c + 1 then 0 else cindex c + 1) = int ci"
      using ci2 by (simp add: n_def)
    note ci = ci1 ci3
    have seq: "map (\<lambda>d. (nat (cindex c + 1) + d) mod n) [0..<Suc r] =
      ci # map (\<lambda>d. (nat (int ci + 1) + d) mod n) [0..<r]"
    proof -
      have "(nat (cindex c + 1) + Suc d) mod n = (nat (int ci + 1) + d) mod n" for d
      proof -
        let ?a = "nat (cindex c + 1)"
        have "(?a + Suc d) mod n = (Suc ?a + d) mod n" by simp
        also have "\<dots> = (Suc ?a mod n + d) mod n" by (simp add: mod_add_left_eq)
        also have "\<dots> = (Suc (?a mod n) mod n + d) mod n" by (simp add: mod_Suc_eq)
        also have "\<dots> = (Suc (?a mod n) + d) mod n" by (simp add: mod_add_left_eq)
        also have "Suc (?a mod n) = nat (int ci + 1)" by (simp add: ci_def)
        finally show ?thesis .
      qed
      then show ?thesis
        unfolding upt_0_Suc_map by (simp add: ci_def del: upt_Suc)
    qed
    show ?thesis
    proof (cases "IsDead (heap c (conns c ! ci))")
      case False
      with 1(5) have "j = ci"
        unfolding n_def[symmetric] r(1) seq by simp
      then show ?thesis
        using \<open>\<not> i + 1 > int n\<close> False ci1 npos
        by (subst next_loop.simps) (simp add: Let_def ci3 n_def)
    next
      case True
      have step: "next_loop i c = next_loop (i + 1) (c\<lparr>cindex := int ci\<rparr>)"
        using \<open>\<not> i + 1 > int n\<close> True ci1 npos
        by (subst next_loop.simps) (simp add: Let_def ci3 n_def)
      have f: "find (\<lambda>j. \<not> IsDead (heap c (conns c ! j)))
          (map (\<lambda>d. (nat (int ci + 1) + d) mod n) [0..<r]) = Some j"
        using 1(5) True unfolding n_def[symmetric] r(1) seq by simp
      have "next_loop (i + 1) (c\<lparr>cindex := int ci\<rparr>) =
          (Found (conns (c\<lparr>cindex := int ci\<rparr>) ! j), c\<lparr>cindex := int ci\<rparr>\<lparr>cindex := int j\<rparr>)"
        using 1(1)[of "i + 1" "int (length (conns c))" "cindex c + 1" "int ci"
            "c\<lparr>cindex := int ci\<rparr>"]
          \<open>\<not> i + 1 > int n\<close> True ci1 npos 1(4) f r(2)
        by (simp add: ci3 n_def)
      then show ?thesis unfolding step by simp
    qed
  qed
qed

lemma rot_upt:
  assumes "s \<le> n"
  shows "map (\<lambda>d. (s + d) mod n) [0..<n] = [s..<n] @ [0..<s]"
proof (rule nth_equalityI)
  show "length (map (\<lambda>d. (s + d) mod n) [0..<n]) = length ([s..<n] @ [0..<s])"
    using assms by simp
next
  fix d assume "d < length (map (\<lambda>d. (s + d) mod n) [0..<n])"
  then have d: "d < n" by simp
  show "map (\<lambda>d. (s + d) mod n) [0..<n] ! d = ([s..<n] @ [0..<s]) ! d"
  proof (cases "s + d < n")
    case True
    then have "d < n - s" by arith
    then show ?thesis using d True by (simp add: nth_append)
  next
    case False
    then have m: "(s + d) mod n = s + d - n"
      using d assms by (simp add: le_mod_geq)
    have a: "\<not> d < n - s" "d - (n - s) < s" "d - (n - s) = s + d - n"
      using False d assms by arith+
    show ?thesis using d a by (simp add: nth_append m)
  qed
qed

lemma find_filter:
  "find P xs = (case filter P xs of [] \<Rightarrow> None | x # _ \<Rightarrow> Some x)"
  by (induction xs) auto

lemma live_split:
  assumes "s \<le> n"
  shows "filter P [0..<n] = filter P [0..<s] @ filter P [s..<n]"
proof -
  have "[0..<n] = [0..<s] @ [s..<n]"
    using assms upt_add_eq_append[of 0 s "n - s"] by simp
  then show ?thesis by (metis filter_append)
qed

lemma hd_rot:
  assumes "L \<noteq> []" "p \<le> length L"
  shows "drop p L @ take p L \<noteq> [] \<and> hd (drop p L @ take p L) = L ! (p mod length L)"
proof (cases "p < length L")
  case True
  then show ?thesis by (simp add: hd_drop_conv_nth)
next
  case False
  then have "p = length L" using assms by simp
  then show ?thesis using assms by (simp add: hd_conv_nth)
qed

lemma Client_next_live:
  assumes "-1 \<le> cindex c" "cindex c < int (length (conns c))" "live c \<noteq> []"
  shows "Client_next c =
    (NextConn (conns c ! (live c ! (rank c mod length (live c)))),
     c\<lparr>cindex := int (live c ! (rank c mod length (live c)))\<rparr>)"
proof -
  let ?P = "\<lambda>j. \<not> IsDead (heap c (conns c ! j))"
  let ?n = "length (conns c)"
  let ?s = "nat (cindex c + 1)"
  have s: "?s \<le> ?n" using assms(1,2) by simp
  have L: "live c = filter ?P [0..<?s] @ filter ?P [?s..<?n]"
    unfolding live_def by (rule live_split[OF s])
  have tk: "filter ?P [0..<?s] = take (rank c) (live c)"
    and dr: "filter ?P [?s..<?n] = drop (rank c) (live c)"
    unfolding L rank_def by simp_all
  have le: "rank c \<le> length (live c)" unfolding L rank_def by simp
  have "filter ?P (map (\<lambda>d. (?s + d) mod ?n) [0..<?n]) = drop (rank c) (live c) @ take (rank c) (live c)"
    unfolding rot_upt[OF s] by (simp add: tk dr)
  then have "find ?P (map (\<lambda>d. (?s + d) mod ?n) [0..<?n]) =
      Some (live c ! (rank c mod length (live c)))"
    using hd_rot[OF assms(3) le]
    by (cases "drop (rank c) (live c) @ take (rank c) (live c)") (simp_all add: find_filter)
  then have "next_loop 0 c = (Found (conns c ! (live c ! (rank c mod length (live c)))),
      c\<lparr>cindex := int (live c ! (rank c mod length (live c)))\<rparr>)"
    using next_loop_find[OF assms(1,2), of 0] by simp
  then show ?thesis by (simp add: Client_next_def)
qed

lemma filter_upt_nth:
  assumes "q < length (filter P [0..<n])"
  shows "length (filter P [0..<Suc (filter P [0..<n] ! q)]) = Suc q"
proof -
  define L where "L = filter P [0..<n]"
  define j where "j = L ! q"
  define A where "A = filter P [0..<j]"
  define B where "B = filter P [Suc j..<n]"
  have q: "q < length L" using assms by (simp add: L_def)
  then have "j \<in> set L" unfolding j_def by (rule nth_mem)
  then have jn: "j < n" "P j" by (auto simp: L_def)
  have SA: "filter P [0..<Suc j] = A @ [j]" using jn(2) by (simp add: A_def)
  have L: "L = (A @ [j]) @ B"
    using live_split[of "Suc j" n P] jn(1) SA by (simp add: L_def B_def)
  have a: "length A < length L" by (simp add: L)
  have "L ! length A = j" by (simp add: L nth_append)
  moreover have "distinct L" by (simp add: L_def)
  ultimately have "length A = q"
    using a q by (simp add: nth_eq_iff_index_eq j_def)
  then show ?thesis using SA by (simp add: L_def[symmetric] j_def[symmetric])
qed

lemma next_n_round_robin:
  assumes "-1 \<le> cindex c" "cindex c < int (length (conns c))" "live c \<noteq> []"
  shows "next_n k c =
    map (\<lambda>i. NextConn (conns c ! (live c ! ((rank c + i) mod length (live c))))) [0..<k]"
  using assms
proof (induction k arbitrary: c)
  case 0
  show ?case by simp
next
  case (Suc k)
  let ?m = "length (live c)"
  let ?q = "rank c mod ?m"
  let ?c' = "c\<lparr>cindex := int (live c ! ?q)\<rparr>"
  have m: "0 < ?m" using Suc.prems(3) by simp
  then have q: "?q < ?m" by simp
  have step: "Client_next c = (NextConn (conns c ! (live c ! ?q)), ?c')"
    by (rule Client_next_live[OF Suc.prems])
  have l': "live ?c' = live c" by (simp add: live_def)
  have "live c ! ?q \<in> set (live c)" using q by simp
  then have r: "live c ! ?q < length (conns c)" by (simp add: live_def)
  have rk: "rank ?c' = Suc ?q"
    using filter_upt_nth[of ?q "\<lambda>j. \<not> IsDead (heap c (conns c ! j))" "length (conns c)"] q
    by (simp add: rank_def live_def nat_add_distrib)
  have IH: "next_n k ?c' =
    map (\<lambda>i. NextConn (conns ?c' ! (live ?c' ! ((rank ?c' + i) mod length (live ?c'))))) [0..<k]"
    using r Suc.prems(3) by (intro Suc.IH) (simp_all add: l')
  have idx: "Suc (?q + i) mod ?m = Suc (rank c + i) mod ?m" for i
  proof -
    have "Suc (?q + i) mod ?m = (?q + Suc i) mod ?m" by simp
    also have "\<dots> = (rank c + Suc i) mod ?m" by (simp only: mod_add_left_eq)
    finally show ?thesis by simp
  qed
  show ?case
    unfolding upt_0_Suc_map
    using step IH by (simp add: l' rk idx del: upt_Suc)
qed

text \<open>
  C2. With the cursor in its range (from \<open>-1\<close>, its initial value, to the last
  position of the pool) and at least one connection not dead, successive calls
  of \<open>next\<close> (nothing else touching the pool) return connections only, each of
  them not dead, and walk through the live positions of the pool in pool order,
  cyclically, starting with the first live position after the cursor: call
  number \<open>i\<close> returns the connection at the live position number
  \<open>(rank c + i) mod length (live c)\<close>. So as many calls as there are live
  positions return every live position exactly once (a rotation of the list of
  live positions). For the pool [A, B, C] with the cursor at \<open>-1\<close> four calls
  return A, B, C, A, and with B dead three calls return A, C, A.
\<close>

theorem next_round_robin:
  assumes "-1 \<le> cindex c" and "cindex c < int (length (conns c))" and "live c \<noteq> []"
  shows "next_n k c =
       map (\<lambda>i. NextConn (conns c ! (live c ! ((rank c + i) mod length (live c))))) [0..<k] \<and>
     next_n (length (live c)) c =
       map (\<lambda>j. NextConn (conns c ! j)) (rotate (rank c) (live c)) \<and>
     (\<forall>j \<in> set (live c). j < length (conns c) \<and> \<not> IsDead (heap c (conns c ! j))) \<and>
     distinct (live c) \<and> sorted (live c)"
proof -
  let ?m = "length (live c)"
  have "map (\<lambda>i. NextConn (conns c ! (live c ! ((rank c + i) mod ?m)))) [0..<?m] =
      map (\<lambda>j. NextConn (conns c ! j)) (rotate (rank c) (live c))"
    by (rule nth_equalityI) (simp_all add: nth_rotate)
  then have "next_n ?m c = map (\<lambda>j. NextConn (conns c ! j)) (rotate (rank c) (live c))"
    using next_n_round_robin[OF assms, of ?m] by simp
  moreover have "distinct (live c)" "sorted (live c)"
    by (simp_all add: live_def sorted_wrt_filter)
  moreover have "\<forall>j \<in> set (live c). j < length (conns c) \<and> \<not> IsDead (heap c (conns c ! j))"
    by (simp add: live_def)
  ultimately show ?thesis
    using next_n_round_robin[OF assms, of k] by simp
qed

theorem next_round_robin_witness:
  "-1 \<le> cindex (simpleClient [0, 1, 2] heapABC) \<and>
   cindex (simpleClient [0, 1, 2] heapABC) < int (length (conns (simpleClient [0, 1, 2] heapABC))) \<and>
   live (simpleClient [0, 1, 2] heapABC) = [0, 1, 2] \<and>
   next_n 4 (simpleClient [0, 1, 2] heapABC) = [NextConn 0, NextConn 1, NextConn 2, NextConn 0] \<and>
   live (simpleClient [0, 1, 2] (heapABC(1 := MarkAsDead (heapABC 1)))) = [0, 2] \<and>
   next_n 3 (simpleClient [0, 1, 2] (heapABC(1 := MarkAsDead (heapABC 1)))) =
     [NextConn 0, NextConn 2, NextConn 0]"
proof -
  let ?c = "simpleClient [0, 1, 2] heapABC"
  let ?d = "simpleClient [0, 1, 2] (heapABC(1 := MarkAsDead (heapABC 1)))"
  have c: "-1 \<le> cindex ?c" "cindex ?c < int (length (conns ?c))"
    and d: "-1 \<le> cindex ?d" "cindex ?d < int (length (conns ?d))"
    by (simp_all add: simpleClient_def)
  have lc: "live ?c = [0, 1, 2]" and rc: "rank ?c = 0"
    by (simp_all add: live_def rank_def simpleClient_def heapABC_def newConn_def IsDead_def)
  have ld: "live ?d = [0, 2]" and rd: "rank ?d = 0"
    by (simp_all add: live_def rank_def simpleClient_def heapABC_def newConn_def IsDead_def
        MarkAsDead_def)
  have cs: "conns ?c = [0, 1, 2]" "conns ?d = [0, 1, 2]"
    by (simp_all add: simpleClient_def)
  have "next_n 4 ?c = [NextConn 0, NextConn 1, NextConn 2, NextConn 0]"
    using next_round_robin [of ?c 4] c unfolding lc rc cs
    by (simp add: upt_conv_Cons)
  moreover have "next_n 3 ?d = [NextConn 0, NextConn 2, NextConn 0]"
    using next_round_robin [of ?d 3] d unfolding ld rd cs
    by (simp add: upt_conv_Cons)
  ultimately show ?thesis using c lc ld by simp
qed

subsection \<open>One iteration of the loop of PerformRequest\<close>

text \<open>
  \<open>PerformRequest\<close> enters its loop with \<open>n = 0\<close> and \<open>retried = false\<close>. The
  lemmas below are about one iteration, from any values of \<open>n\<close> and \<open>retried\<close>, in
  which \<open>next\<close> hands out the connection \<open>a\<close>, the request \<open>req\<close> is built without
  an error, and the \<open>Doer\<close> answers \<open>(res, err)\<close>.
\<close>

lemma next_loop_Found:
  "next_loop i c = (Found a, c1) \<Longrightarrow>
   c1 = c\<lparr>cindex := cindex c1\<rparr> \<and> a \<in> set (conns c) \<and> \<not> IsDead (heap c a)"
proof (induction i c rule: next_loop.induct)
  case (1 i c)
  let ?n = "int (length (conns c))"
  let ?ci = "(if cindex c + 1 \<ge> ?n then 0 else cindex c + 1)"
  let ?c' = "c\<lparr>cindex := ?ci\<rparr>"
  from 1(2) have A: "\<not> i + 1 > ?n" "\<not> (?ci < 0 \<or> ?ci \<ge> ?n)"
    by (subst (asm) next_loop.simps; simp add: Let_def split: if_splits)+
  show ?case
  proof (cases "IsDead (heap c (conns c ! nat ?ci))")
    case False
    with 1(2) A have "a = conns c ! nat ?ci" "c1 = ?c'"
      by (subst (asm) next_loop.simps; simp add: Let_def split: if_splits)+
    then show ?thesis using False A by (auto simp: nat_less_iff)
  next
    case True
    with 1(2) A have "next_loop (i + 1) ?c' = (Found a, c1)"
      by (subst (asm) next_loop.simps) (simp add: Let_def split: if_splits)
    then have "c1 = ?c'\<lparr>cindex := cindex c1\<rparr> \<and> a \<in> set (conns ?c') \<and> \<not> IsDead (heap ?c' a)"
      using 1(1)[of "i + 1" ?n "cindex c + 1" ?ci ?c'] A True by simp
    then show ?thesis by simp
  qed
qed

lemma Client_next_Conn:
  assumes "Client_next c = (NextConn a, c1)"
  shows "c1 = c\<lparr>cindex := cindex c1\<rparr>" "a \<in> set (conns c)" "\<not> IsDead (heap c a)"
proof -
  from assms have "next_loop 0 c = (Found a, c1)"
    by (auto simp: Client_next_def Let_def split: prod.splits scan.splits)
  from next_loop_Found[OF this]
  show "c1 = c\<lparr>cindex := cindex c1\<rparr>" "a \<in> set (conns c)" "\<not> IsDead (heap c a)"
    by simp_all
qed

lemma Client_next_Conn_fields:
  assumes "Client_next c = (NextConn a, c1)"
  shows "heap c1 = heap c" "conns c1 = conns c" "sent c1 = sent c" "logged c1 = logged c"
    "consulted c1 = consulted c" "slept c1 = slept c" "errorlog c1 = errorlog c"
    "infolog c1 = infolog c"
  by (subst Client_next_Conn(1)[OF assms], simp)+

lemma PerformRequest_request_any:
  "fst (PerformRequest_request w opt gz t c0) = Inr req \<Longrightarrow>
   PerformRequest_request w opt gz t c = (Inr req, c)"
  by (auto simp: PerformRequest_request_def split: sum.splits option.splits)

declare PerformRequest_loop.simps [simp del]

lemma Retry_simp [simp]:
  "Retry r n req res err c = (r n req res err, c\<lparr>consulted := consulted c @ [n]\<rparr>)"
  by (simp add: Retry_def)

lemma loop_context_error:
  assumes "Client_next c = (NextConn a, c1)"
    and "fst (PerformRequest_request w opt gz (url (heap c a) @ pathWithParams opt) c) = Inr req"
    and "Do w (length (sent c)) req = (res, err)"
    and "IsContextErr err"
  shows "PerformRequest_loop w opt retr codes hc gz (Suc fuel) n retried c =
    Some (Return None err, c1\<lparr>sent := sent c @ [req]\<rparr>)"
  using assms Client_next_Conn_fields[OF assms(1)]
    PerformRequest_request_any[OF assms(2), of c1]
  by (simp add: c_Do_def PerformRequest_loop.simps)

lemma loop_transport_error:
  assumes "Client_next c = (NextConn a, c1)"
    and "fst (PerformRequest_request w opt gz (url (heap c a) @ pathWithParams opt) c) = Inr req"
    and "Do w (length (sent c)) req = (res, Some e)"
    and "\<not> IsContextErr (Some e)"
    and "retr (n + 1) (Some req) res (Some e) = (wait, ok, rerr)"
  shows "PerformRequest_loop w opt retr codes hc gz (Suc fuel) n retried c =
    (if rerr = None \<and> ok
     then PerformRequest_loop w opt retr codes hc gz fuel (n + 1) True
            (c1\<lparr>sent := sent c @ [req], consulted := consulted c @ [n + 1],
                slept := slept c @ [wait]\<rparr>)
     else Some (Return None (if rerr = None then Some e else rerr),
            at a MarkAsDead (errorf (NodeIsDead (url (heap c a)))
              (c1\<lparr>sent := sent c @ [req], consulted := consulted c @ [n + 1]\<rparr>))))"
  using assms Client_next_Conn_fields[OF assms(1)]
    PerformRequest_request_any[OF assms(2), of c1]
  by (cases rerr) (simp_all add: c_Do_def Sleep_def PerformRequest_loop.simps)


lemma loop_response:
  assumes "Client_next c = (NextConn a, c1)"
    and "fst (PerformRequest_request w opt gz (url (heap c a) @ pathWithParams opt) c) = Inr req"
    and "Do w (length (sent c)) req = (Some r, None)"
    and "\<not> retry codes (StatusCode r)"
  shows "PerformRequest_loop w opt retr codes hc gz (Suc fuel) n retried c =
    Some (PerformRequest_response w opt a req r (c1\<lparr>sent := sent c @ [req]\<rparr>))"
  using assms Client_next_Conn_fields[OF assms(1)]
    PerformRequest_request_any[OF assms(2), of c1]
  by (simp add: c_Do_def IsContextErr_def PerformRequest_loop.simps)

lemma log_warnings_fields [simp]:
  "conns (log_warnings ws c) = conns c" "cindex (log_warnings ws c) = cindex c"
  "heap (log_warnings ws c) = heap c" "sent (log_warnings ws c) = sent c"
  "consulted (log_warnings ws c) = consulted c" "slept (log_warnings ws c) = slept c"
  "infolog (log_warnings ws c) = infolog c" "errorlog (log_warnings ws c) = errorlog c"
  by (induction ws arbitrary: c; simp)+

lemma ignored_iff: "ignored codes s \<longleftrightarrow> s \<in> set codes"
  by (induction codes) auto

lemma example_next:
  "Client_next (simpleClient [0, 1, 2] heapABC) =
     (NextConn 0, simpleClient [0, 1, 2] heapABC\<lparr>cindex := 0\<rparr>)"
  by (simp add: simpleClient_def Client_next_def next_loop.simps heapABC_def newConn_def
      IsDead_def)

lemma example_request:
  "fst (PerformRequest_request (simpleWorld d) searchOptions False
          (url (heap (simpleClient cs heapABC) 0) @ pathWithParams searchOptions)
          (simpleClient cs heapABC)) = Inr (searchRequest ''http://a:9200'')"
  by (simp add: PerformRequest_request_def simpleWorld_def searchOptions_def searchRequest_def
      simpleClient_def heapABC_def newConn_def pathWithParams_def)


subsection \<open>Cancellation\<close>

text \<open>
  C5. In an iteration of the loop of \<open>PerformRequest\<close> whose send fails with an
  error that \<open>IsContextErr\<close> accepts (\<open>context.Canceled\<close> and
  \<open>context.DeadlineExceeded\<close> among them), \<open>PerformRequest\<close> returns that very
  error and no response. The retrier is not asked (whatever the retrier is),
  nothing is slept, nothing is logged, and no connection of the store changes:
  the liveness of the selected connection and of every other one is as before.
\<close>

theorem PerformRequest_context_error:
  assumes "Client_next c = (NextConn a, c1)"
    and "fst (PerformRequest_request w opt gz (url (heap c a) @ pathWithParams opt) c) = Inr req"
    and "Do w (length (sent c)) req = (res, Some err)"
    and "IsContextErr (Some err)"
  shows "\<exists>c'. PerformRequest_loop w opt retr codes hc gz (Suc fuel) n retried c =
            Some (Return None (Some err), c') \<and>
          heap c' = heap c \<and> conns c' = conns c \<and> consulted c' = consulted c \<and>
          slept c' = slept c \<and> logged c' = logged c \<and> sent c' = sent c @ [req]"
  using loop_context_error[OF assms, of retr codes hc fuel n retried]
    Client_next_Conn_fields[OF assms(1)]
  by simp

theorem PerformRequest_context_error_witness:
  "Client_next (simpleClient [0, 1, 2] heapABC) =
     (NextConn 0, simpleClient [0, 1, 2] heapABC\<lparr>cindex := 0\<rparr>) \<and>
   fst (PerformRequest_request (simpleWorld (answers [(None, Some ContextCanceled)]))
          searchOptions False
          (url (heap (simpleClient [0, 1, 2] heapABC) 0) @ pathWithParams searchOptions)
          (simpleClient [0, 1, 2] heapABC)) = Inr (searchRequest ''http://a:9200'') \<and>
   Do (simpleWorld (answers [(None, Some ContextCanceled)]))
      (length (sent (simpleClient [0, 1, 2] heapABC))) (searchRequest ''http://a:9200'') =
     (None, Some ContextCanceled) \<and>
   IsContextErr (Some ContextCanceled) \<and>
   (\<exists>c'. PerformRequest_loop (simpleWorld (answers [(None, Some ContextCanceled)]))
            searchOptions noRetries [] False False (Suc 0) 0 False
            (simpleClient [0, 1, 2] heapABC) =
          Some (Return None (Some ContextCanceled), c') \<and>
        heap c' = heapABC \<and> consulted c' = [] \<and>
        sent c' = [searchRequest ''http://a:9200''])"
proof -
  let ?w = "simpleWorld (answers [(None, Some ContextCanceled)])"
  let ?c = "simpleClient [0, 1, 2] heapABC"
  have d: "Do ?w (length (sent ?c)) (searchRequest ''http://a:9200'') =
      (None, Some ContextCanceled)"
    by (simp add: simpleWorld_def answers_def simpleClient_def)
  have i: "IsContextErr (Some ContextCanceled)" by (simp add: IsContextErr_def)
  have f: "heap ?c = heapABC" "consulted ?c = []" "sent ?c = []"
    by (simp_all add: simpleClient_def)
  have m: "\<exists>c'. PerformRequest_loop ?w searchOptions noRetries [] False False (Suc 0) 0 False ?c =
          Some (Return None (Some ContextCanceled), c') \<and>
        heap c' = heapABC \<and> consulted c' = [] \<and>
        sent c' = [searchRequest ''http://a:9200'']"
    using PerformRequest_context_error [OF example_next example_request d i,
        of noRetries "[]" False 0 0 False]
    unfolding f by auto
  show ?thesis
    by (intro conjI example_next example_request d i m)
qed

text \<open>
  C10. \<open>IsContextErr\<close> accepts every \<open>*url.Error\<close> whose \<open>Temporary()\<close> is true,
  whatever it wraps, and a \<open>*url.Error\<close> that is not temporary exactly when it
  accepts the wrapped error. So when the send fails with a temporary URL error
  (one that wraps, say, an i/o timeout and no cancellation), the iteration
  returns that error at once, without asking the retrier and without marking
  the connection dead.
\<close>

theorem PerformRequest_temporary_url_error:
  assumes "Client_next c = (NextConn a, c1)"
    and "fst (PerformRequest_request w opt gz (url (heap c a) @ pathWithParams opt) c) = Inr req"
    and "Do w (length (sent c)) req = (res, Some (UrlError True e))"
  shows "IsContextErr (Some (UrlError True e)) \<and>
     IsContextErr (Some (UrlError False e)) = IsContextErr (Some e) \<and>
     (\<exists>c'. PerformRequest_loop w opt retr codes hc gz (Suc fuel) n retried c =
            Some (Return None (Some (UrlError True e)), c') \<and>
          heap c' = heap c \<and> consulted c' = consulted c \<and> slept c' = slept c \<and>
          logged c' = logged c \<and> sent c' = sent c @ [req])"
proof -
  have t: "IsContextErr (Some (UrlError True e))" by (simp add: IsContextErr_def)
  show ?thesis
    using loop_context_error[OF assms t, of retr codes hc fuel n retried]
      Client_next_Conn_fields[OF assms(1)]
    by (simp add: IsContextErr_def)
qed

theorem PerformRequest_temporary_url_error_witness:
  "Client_next (simpleClient [0, 1, 2] heapABC) =
     (NextConn 0, simpleClient [0, 1, 2] heapABC\<lparr>cindex := 0\<rparr>) \<and>
   fst (PerformRequest_request
          (simpleWorld (answers [(None, Some (UrlError True (OtherError ''i/o timeout'')))]))
          searchOptions False
          (url (heap (simpleClient [0, 1, 2] heapABC) 0) @ pathWithParams searchOptions)
          (simpleClient [0, 1, 2] heapABC)) = Inr (searchRequest ''http://a:9200'') \<and>
   Do (simpleWorld (answers [(None, Some (UrlError True (OtherError ''i/o timeout'')))]))
      (length (sent (simpleClient [0, 1, 2] heapABC))) (searchRequest ''http://a:9200'') =
     (None, Some (UrlError True (OtherError ''i/o timeout''))) \<and>
   \<not> IsContextErr (Some (OtherError ''i/o timeout'')) \<and>
   IsContextErr (Some (UrlError True (OtherError ''i/o timeout''))) \<and>
   (\<exists>c'. PerformRequest_loop
            (simpleWorld (answers [(None, Some (UrlError True (OtherError ''i/o timeout'')))]))
            searchOptions noRetries [] False False (Suc 0) 0 False
            (simpleClient [0, 1, 2] heapABC) =
          Some (Return None (Some (UrlError True (OtherError ''i/o timeout''))), c') \<and>
        heap c' = heapABC \<and> consulted c' = [] \<and>
        sent c' = [searchRequest ''http://a:9200''])"
proof -
  let ?e = "UrlError True (OtherError ''i/o timeout'')"
  let ?w = "simpleWorld (answers [(None, Some ?e)])"
  let ?c = "simpleClient [0, 1, 2] heapABC"
  have d: "Do ?w (length (sent ?c)) (searchRequest ''http://a:9200'') = (None, Some ?e)"
    by (simp add: simpleWorld_def answers_def simpleClient_def)
  have i: "\<not> IsContextErr (Some (OtherError ''i/o timeout''))" by (simp add: IsContextErr_def)
  have f: "heap ?c = heapABC" "consulted ?c = []" "sent ?c = []"
    by (simp_all add: simpleClient_def)
  have m: "IsContextErr (Some ?e)"
    "\<exists>c'. PerformRequest_loop ?w searchOptions noRetries [] False False (Suc 0) 0 False ?c =
          Some (Return None (Some ?e), c') \<and>
        heap c' = heapABC \<and> consulted c' = [] \<and>
        sent c' = [searchRequest ''http://a:9200'']"
    using PerformRequest_temporary_url_error [OF example_next example_request d,
        of noRetries "[]" False 0 0 False]
    unfolding f by auto
  show ?thesis
    by (intro conjI example_next example_request d i m)
qed


subsection \<open>Application errors\<close>

text \<open>
  The error that \<open>checkResponse\<close> returns need not carry the HTTP status: for a
  response with the HTTP status 404 whose body decodes to an error document
  with the status 400, it carries 400.
\<close>

theorem checkResponse_status_counterexample:
  "checkResponse \<lparr>StatusCode = 404, Body = Some (Unmarshals 400 None), Warning = []\<rparr> [] =
     Some (ElasticError 400 None) \<and>
   StatusCode \<lparr>StatusCode = 404, Body = Some (Unmarshals 400 None), Warning = []\<rparr> = 404"
  by (simp add: checkResponse_def createResponseError_def)

text \<open>
  C9, amended. \<open>checkResponse\<close> returns nil exactly when the status code of the
  response is in [200, 299] or in the list of ignored codes. Otherwise it
  returns an \<open>*Error\<close> whose status is the status that the body decodes to when
  the body decodes to an error document with a status other than 0, and the
  HTTP status in every other case. In an iteration of the loop of
  \<open>PerformRequest\<close> whose send succeeds with a status code that is not a retry
  status code: when the call does not stream and the response has a nil body,
  \<open>PerformRequest\<close> panics at \<open>defer res.Body.Close()\<close>, with no connection
  changed. In every other case: if \<open>checkResponse\<close> returns an error,
  \<open>PerformRequest\<close> returns it together with the response that \<open>newResponse\<close>
  builds, without asking the retrier, sleeping or changing a connection; if it
  returns nil, the connection is marked healthy (alive, failure counter 0) and
  \<open>PerformRequest\<close> returns what \<open>newResponse\<close> returns.
\<close>

theorem PerformRequest_application_error:
  assumes "Client_next c = (NextConn a, c1)"
    and "fst (PerformRequest_request w opt gz (url (heap c a) @ pathWithParams opt) c) = Inr req"
    and "Do w (length (sent c)) req = (Some r, None)"
    and "\<not> retry codes (StatusCode r)"
  shows "(checkResponse r (IgnoreErrors opt) = None) =
       (200 \<le> StatusCode r \<and> StatusCode r \<le> 299 \<or> StatusCode r \<in> set (IgnoreErrors opt)) \<and>
     (checkResponse r (IgnoreErrors opt) \<noteq> None \<longrightarrow>
        (\<exists>d. checkResponse r (IgnoreErrors opt) =
           Some (ElasticError
                  (case Body r of
                     Some (Unmarshals s details) \<Rightarrow> if s = 0 then StatusCode r else s
                   | _ \<Rightarrow> StatusCode r) d))) \<and>
     (\<not> Stream opt \<and> Body r = None \<longrightarrow>
        (\<exists>c'. PerformRequest_loop w opt retr codes hc gz (Suc fuel) n retried c =
                 Some (Panic, c') \<and>
               heap c' = heap c \<and> consulted c' = consulted c \<and> slept c' = slept c \<and>
               sent c' = sent c @ [req])) \<and>
     (Stream opt \<or> Body r \<noteq> None \<longrightarrow>
        (\<forall>err. checkResponse r (IgnoreErrors opt) = Some err \<longrightarrow>
           (\<exists>c'. PerformRequest_loop w opt retr codes hc gz (Suc fuel) n retried c =
                    Some (Return (fst (newResponse w r (MaxResponseSize opt) (Stream opt)))
                            (Some err), c') \<and>
                  heap c' = heap c \<and> consulted c' = consulted c \<and> slept c' = slept c \<and>
                  sent c' = sent c @ [req])) \<and>
        (checkResponse r (IgnoreErrors opt) = None \<longrightarrow>
           (\<exists>c'. PerformRequest_loop w opt retr codes hc gz (Suc fuel) n retried c =
                    Some (case newResponse w r (MaxResponseSize opt) (Stream opt) of
                            (resp, Some e) \<Rightarrow> Return None (Some e)
                          | (None, None) \<Rightarrow> Panic
                          | (Some resp, None) \<Rightarrow> Return (Some resp) None, c') \<and>
                  heap c' = (heap c)(a := MarkAsHealthy (heap c a)) \<and>
                  \<not> IsDead (heap c' a) \<and> failures (heap c' a) = 0 \<and>
                  consulted c' = consulted c \<and> slept c' = slept c \<and>
                  sent c' = sent c @ [req])))"
proof -
  note f = Client_next_Conn_fields[OF assms(1)]
  note l = loop_response[OF assms, of retr hc fuel n retried]
  have A: "(checkResponse r (IgnoreErrors opt) = None) =
       (200 \<le> StatusCode r \<and> StatusCode r \<le> 299 \<or> StatusCode r \<in> set (IgnoreErrors opt))"
    by (auto simp: checkResponse_def ignored_iff)
  have B: "checkResponse r (IgnoreErrors opt) \<noteq> None \<longrightarrow>
        (\<exists>d. checkResponse r (IgnoreErrors opt) =
           Some (ElasticError
                  (case Body r of
                     Some (Unmarshals s details) \<Rightarrow> if s = 0 then StatusCode r else s
                   | _ \<Rightarrow> StatusCode r) d))"
    by (auto simp: checkResponse_def createResponseError_def split: option.splits body.splits)
  have P: "\<not> Stream opt \<and> Body r = None \<longrightarrow>
        (\<exists>c'. PerformRequest_loop w opt retr codes hc gz (Suc fuel) n retried c =
                 Some (Panic, c') \<and>
               heap c' = heap c \<and> consulted c' = consulted c \<and> slept c' = slept c \<and>
               sent c' = sent c @ [req])"
    unfolding l by (simp add: PerformRequest_response_def f)
  have C: "Stream opt \<or> Body r \<noteq> None \<longrightarrow>
        (\<forall>err. checkResponse r (IgnoreErrors opt) = Some err \<longrightarrow>
        (\<exists>c'. PerformRequest_loop w opt retr codes hc gz (Suc fuel) n retried c =
                 Some (Return (fst (newResponse w r (MaxResponseSize opt) (Stream opt)))
                         (Some err), c') \<and>
               heap c' = heap c \<and> consulted c' = consulted c \<and> slept c' = slept c \<and>
               sent c' = sent c @ [req]))"
    unfolding l by (auto simp: PerformRequest_response_def Let_def f)
  have D: "Stream opt \<or> Body r \<noteq> None \<longrightarrow> checkResponse r (IgnoreErrors opt) = None \<longrightarrow>
        (\<exists>c'. PerformRequest_loop w opt retr codes hc gz (Suc fuel) n retried c =
                 Some (case newResponse w r (MaxResponseSize opt) (Stream opt) of
                         (resp, Some e) \<Rightarrow> Return None (Some e)
                       | (None, None) \<Rightarrow> Panic
                       | (Some resp, None) \<Rightarrow> Return (Some resp) None, c') \<and>
               heap c' = (heap c)(a := MarkAsHealthy (heap c a)) \<and>
               \<not> IsDead (heap c' a) \<and> failures (heap c' a) = 0 \<and>
               consulted c' = consulted c \<and> slept c' = slept c \<and>
               sent c' = sent c @ [req])"
    unfolding l
    by (cases "newResponse w r (MaxResponseSize opt) (Stream opt)")
       (auto simp: PerformRequest_response_def Let_def f IsDead_def MarkAsHealthy_def
          split: option.splits)
  show ?thesis using A B P C D by blast
qed

theorem PerformRequest_application_error_witness:
  "Client_next (simpleClient [0, 1, 2] heapABC) =
     (NextConn 0, simpleClient [0, 1, 2] heapABC\<lparr>cindex := 0\<rparr>) \<and>
   fst (PerformRequest_request (simpleWorld (answers [(Some (status 404), None)]))
          searchOptions False
          (url (heap (simpleClient [0, 1, 2] heapABC) 0) @ pathWithParams searchOptions)
          (simpleClient [0, 1, 2] heapABC)) = Inr (searchRequest ''http://a:9200'') \<and>
   Do (simpleWorld (answers [(Some (status 404), None)]))
      (length (sent (simpleClient [0, 1, 2] heapABC))) (searchRequest ''http://a:9200'') =
     (Some (status 404), None) \<and>
   \<not> retry [] (StatusCode (status 404)) \<and>
   \<not> Stream searchOptions \<and> Body (status 404) \<noteq> None \<and>
   checkResponse (status 404) (IgnoreErrors searchOptions) = Some (ElasticError 404 None) \<and>
   (\<exists>c'. PerformRequest_loop (simpleWorld (answers [(Some (status 404), None)]))
            searchOptions noRetries [] False False (Suc 0) 0 False
            (simpleClient [0, 1, 2] heapABC) =
          Some (Return (Some \<lparr>RStatusCode = 404, RBody = None\<rparr>)
                  (Some (ElasticError 404 None)), c') \<and>
        heap c' = heapABC \<and> consulted c' = [])"
proof -
  let ?w = "simpleWorld (answers [(Some (status 404), None)])"
  let ?c = "simpleClient [0, 1, 2] heapABC"
  have d: "Do ?w (length (sent ?c)) (searchRequest ''http://a:9200'') = (Some (status 404), None)"
    by (simp add: simpleWorld_def answers_def simpleClient_def)
  have r: "\<not> retry [] (StatusCode (status 404))" by simp
  have s: "\<not> Stream searchOptions" by (simp add: searchOptions_def)
  have b: "Body (status 404) \<noteq> None" by (simp add: status_def)
  have k: "checkResponse (status 404) (IgnoreErrors searchOptions) = Some (ElasticError 404 None)"
    by (simp add: checkResponse_def createResponseError_def status_def searchOptions_def)
  have n: "fst (newResponse ?w (status 404) (MaxResponseSize searchOptions) (Stream searchOptions))
      = Some \<lparr>RStatusCode = 404, RBody = None\<rparr>"
    by (simp add: simpleWorld_def status_def)
  have f: "heap ?c = heapABC" "consulted ?c = []" "sent ?c = []"
    by (simp_all add: simpleClient_def)
  from PerformRequest_application_error [OF example_next example_request d r,
        of noRetries False 0 0 False] k b
  have "\<exists>c'. PerformRequest_loop ?w searchOptions noRetries [] False False (Suc 0) 0 False ?c =
          Some (Return (fst (newResponse ?w (status 404) (MaxResponseSize searchOptions)
                  (Stream searchOptions))) (Some (ElasticError 404 None)), c') \<and>
        heap c' = heap ?c \<and> consulted c' = consulted ?c"
    by blast
  then have m: "\<exists>c'. PerformRequest_loop ?w searchOptions noRetries [] False False (Suc 0) 0 False ?c =
          Some (Return (Some \<lparr>RStatusCode = 404, RBody = None\<rparr>)
                  (Some (ElasticError 404 None)), c') \<and>
        heap c' = heapABC \<and> consulted c' = []"
    unfolding f n .
  show ?thesis
    by (intro conjI example_next example_request d r s b k m)
qed

subsection \<open>Transport errors and retries\<close>

lemma cursor_step:
  assumes "-1 \<le> cindex c" "cindex c < int (length (conns c))" "live c \<noteq> []"
    and "cindex c' = int (live c ! (rank c mod length (live c)))"
    and "heap c' = heap c" "conns c' = conns c"
  shows "live c' = live c" "-1 \<le> cindex c'" "cindex c' < int (length (conns c'))"
    "selected c' i = selected c (Suc i)"
proof -
  let ?m = "length (live c)"
  let ?q = "rank c mod ?m"
  have m: "0 < ?m" using assms(3) by simp
  then have q: "?q < ?m" by simp
  show l': "live c' = live c" by (simp add: live_def assms(5,6))
  have "live c ! ?q \<in> set (live c)" using q by simp
  then have r: "live c ! ?q < length (conns c)" by (simp add: live_def)
  show "-1 \<le> cindex c'" "cindex c' < int (length (conns c'))"
    using r by (simp_all add: assms(4,6))
  have rk: "rank c' = Suc ?q"
    using filter_upt_nth[of ?q "\<lambda>j. \<not> IsDead (heap c (conns c ! j))" "length (conns c)"] q
    by (simp add: rank_def live_def nat_add_distrib assms(4,5,6))
  have "(Suc ?q + i) mod ?m = (?q + Suc i) mod ?m" by simp
  also have "\<dots> = (rank c + Suc i) mod ?m" by (simp only: mod_add_left_eq)
  finally show "selected c' i = selected c (Suc i)"
    by (simp add: selected_def l' rk assms(6))
qed

lemma Client_next_selected:
  assumes "-1 \<le> cindex c" "cindex c < int (length (conns c))" "live c \<noteq> []"
  shows "Client_next c =
    (NextConn (selected c 0), c\<lparr>cindex := int (live c ! (rank c mod length (live c)))\<rparr>)"
  using Client_next_live[OF assms] by (simp add: selected_def)

lemma loop_three_failures:
  assumes c: "-1 \<le> cindex c" "cindex c < int (length (conns c))" "live c \<noteq> []"
    and b1: "fst (PerformRequest_request w opt gz
              (url (heap c (selected c 0)) @ pathWithParams opt) c) = Inr req1"
    and b2: "fst (PerformRequest_request w opt gz
              (url (heap c (selected c 1)) @ pathWithParams opt) c) = Inr req2"
    and b3: "fst (PerformRequest_request w opt gz
              (url (heap c (selected c 2)) @ pathWithParams opt) c) = Inr req3"
    and d1: "Do w (length (sent c)) req1 = (res1, Some e1)"
    and d2: "Do w (length (sent c) + 1) req2 = (res2, Some e2)"
    and d3: "Do w (length (sent c) + 2) req3 = (res3, Some e3)"
    and n1: "\<not> IsContextErr (Some e1)"
    and n2: "\<not> IsContextErr (Some e2)"
    and n3: "\<not> IsContextErr (Some e3)"
    and p1: "retr (n + 1) (Some req1) res1 (Some e1) = (wait1, True, None)"
    and p2: "retr (n + 2) (Some req2) res2 (Some e2) = (wait2, True, None)"
    and p3: "retr (n + 3) (Some req3) res3 (Some e3) = (wait3, False, None)"
  shows "\<exists>c'. PerformRequest_loop w opt retr codes hc gz (Suc (Suc (Suc fuel))) n retried c =
            Some (Return None (Some e3), c') \<and>
          sent c' = sent c @ [req1, req2, req3] \<and>
          consulted c' = consulted c @ [n + 1, n + 2, n + 3] \<and>
          slept c' = slept c @ [wait1, wait2] \<and>
          heap c' = (heap c)(selected c 2 := MarkAsDead (heap c (selected c 2))) \<and>
          conns c' = conns c \<and>
          logged c' = logged c @
            (if errorlog c then [ErrorLog (NodeIsDead (url (heap c (selected c 2))))] else [])"
proof -
  define k1 where "k1 = c\<lparr>cindex := int (live c ! (rank c mod length (live c)))\<rparr>"
  define c1 where "c1 = k1\<lparr>sent := sent c @ [req1], consulted := consulted c @ [n + 1],
                slept := slept c @ [wait1]\<rparr>"
  have s1: "PerformRequest_loop w opt retr codes hc gz (Suc (Suc (Suc fuel))) n retried c =
      PerformRequest_loop w opt retr codes hc gz (Suc (Suc fuel)) (n + 1) True c1"
    using loop_transport_error[where retr = retr and n = n and codes = codes and hc = hc
        and fuel = "Suc (Suc fuel)" and retried = retried,
        OF Client_next_selected[OF c] b1 d1 n1 p1]
    by (simp add: c1_def k1_def)
  have f1: "heap c1 = heap c" "conns c1 = conns c" "sent c1 = sent c @ [req1]"
    "consulted c1 = consulted c @ [n + 1]" "slept c1 = slept c @ [wait1]"
    "logged c1 = logged c" "errorlog c1 = errorlog c"
    "cindex c1 = int (live c ! (rank c mod length (live c)))"
    by (simp_all add: c1_def k1_def)
  note st1 = cursor_step[OF c f1(8) f1(1,2)]
  define k2 where "k2 = c1\<lparr>cindex := int (live c1 ! (rank c1 mod length (live c1)))\<rparr>"
  define c2 where "c2 = k2\<lparr>sent := sent c1 @ [req2], consulted := consulted c1 @ [n + 1 + 1],
                slept := slept c1 @ [wait2]\<rparr>"
  have l1: "live c1 \<noteq> []" using st1(1) c(3) by simp
  have b2': "fst (PerformRequest_request w opt gz
              (url (heap c1 (selected c1 0)) @ pathWithParams opt) c1) = Inr req2"
    using PerformRequest_request_any[OF b2, of c1] by (simp add: f1 st1(4))
  have d2': "Do w (length (sent c1)) req2 = (res2, Some e2)"
    using d2 by (simp add: f1)
  have p2': "retr (n + 1 + 1) (Some req2) res2 (Some e2) = (wait2, True, None)"
    using p2 by (simp add: add.assoc)
  have s2: "PerformRequest_loop w opt retr codes hc gz (Suc (Suc fuel)) (n + 1) True c1 =
      PerformRequest_loop w opt retr codes hc gz (Suc fuel) (n + 1 + 1) True c2"
    using loop_transport_error[where retr = retr and n = "n + 1" and codes = codes and hc = hc
        and fuel = "Suc fuel" and retried = True,
        OF Client_next_selected[OF st1(2,3) l1] b2' d2' n2 p2']
    by (simp add: c2_def k2_def)
  have f2: "heap c2 = heap c1" "conns c2 = conns c1" "sent c2 = sent c1 @ [req2]"
    "consulted c2 = consulted c1 @ [n + 1 + 1]" "slept c2 = slept c1 @ [wait2]"
    "logged c2 = logged c1" "errorlog c2 = errorlog c1"
    "cindex c2 = int (live c1 ! (rank c1 mod length (live c1)))"
    by (simp_all add: c2_def k2_def)
  note st2 = cursor_step[OF st1(2,3) l1 f2(8) f2(1,2)]
  define k3 where "k3 = c2\<lparr>cindex := int (live c2 ! (rank c2 mod length (live c2)))\<rparr>"
  have l2: "live c2 \<noteq> []" using st2(1) l1 by simp
  have sel: "selected c2 0 = selected c 2"
    using st2(4)[of 0] st1(4)[of 1] by (simp add: numeral_2_eq_2)
  have b3': "fst (PerformRequest_request w opt gz
              (url (heap c2 (selected c2 0)) @ pathWithParams opt) c2) = Inr req3"
    using PerformRequest_request_any[OF b3, of c2] by (simp add: f1 f2 sel)
  have d3': "Do w (length (sent c2)) req3 = (res3, Some e3)"
    using d3 by (simp add: f1 f2)
  have p3': "retr (n + 1 + 1 + 1) (Some req3) res3 (Some e3) = (wait3, False, None)"
    using p3 by (simp add: add.assoc)
  have s3: "PerformRequest_loop w opt retr codes hc gz (Suc fuel) (n + 1 + 1) True c2 =
      Some (Return None (Some e3),
        at (selected c2 0) MarkAsDead (errorf (NodeIsDead (url (heap c2 (selected c2 0))))
          (k3\<lparr>sent := sent c2 @ [req3], consulted := consulted c2 @ [n + 1 + 1 + 1]\<rparr>)))"
    using loop_transport_error[where retr = retr and n = "n + 1 + 1" and codes = codes
        and hc = hc and fuel = fuel and retried = True,
        OF Client_next_selected[OF st2(2,3) l2] b3' d3' n3 p3']
    by (simp add: k3_def)
  show ?thesis
    unfolding s1 s2 s3
    by (simp add: sel f1 f2 k3_def add.assoc)
qed

lemma example_request_any:
  "PerformRequest_request (simpleWorld d) searchOptions gz (u @ pathWithParams searchOptions) c =
     (Inr (searchRequest u), c)"
  by (simp add: PerformRequest_request_def simpleWorld_def searchOptions_def searchRequest_def
      pathWithParams_def)

lemma example_refused:
  "Do (simpleWorld (answers [])) k req = (None, Some (OtherError ''connection refused''))"
  by (simp add: simpleWorld_def answers_def)

lemma clientAB_selected:
  "-1 \<le> cindex clientAB" "cindex clientAB < int (length (conns clientAB))"
  "live clientAB \<noteq> []"
  "selected clientAB 0 = 0" "selected clientAB 1 = 1" "selected clientAB 2 = 0"
  by (simp_all add: clientAB_def simpleClient_def selected_def live_def rank_def heapABC_def
      newConn_def IsDead_def)

lemma clientABC_selected:
  "-1 \<le> cindex clientABC" "cindex clientABC < int (length (conns clientABC))"
  "live clientABC \<noteq> []"
  "selected clientABC 0 = 0" "selected clientABC 1 = 1" "selected clientABC 2 = 2"
  by (simp_all add: clientABC_def simpleClient_def selected_def live_def rank_def heapABC_def
      newConn_def IsDead_def)

lemma heapABC_url:
  "url (heapABC 0) = ''http://a:9200''" "url (heapABC 1) = ''http://b:9200''"
  "url (heapABC 2) = ''http://c:9200''"
  by (simp_all add: heapABC_def newConn_def)

text \<open>
  A failed send that is retried does not mark its connection dead. Over the pool
  [A, B], with every send refused and a policy that allows exactly two retries,
  the three sends go to A, B and A; at the end B, whose send failed, is not
  dead, and A, the connection of the last send, is.
\<close>

theorem PerformRequest_dead_marking_counterexample:
  "map_option fst (PerformRequest (simpleWorld (answers [])) (Suc (Suc (Suc 0))) searchOptions
                     clientAB) =
     Some (Return None (Some (OtherError ''connection refused''))) \<and>
   sent (snd (the (PerformRequest (simpleWorld (answers [])) (Suc (Suc (Suc 0))) searchOptions
                     clientAB))) =
     [searchRequest ''http://a:9200'', searchRequest ''http://b:9200'',
      searchRequest ''http://a:9200''] \<and>
   \<not> IsDead (heap (snd (the (PerformRequest (simpleWorld (answers [])) (Suc (Suc (Suc 0)))
                                 searchOptions clientAB))) 1) \<and>
   IsDead (heap (snd (the (PerformRequest (simpleWorld (answers [])) (Suc (Suc (Suc 0)))
                             searchOptions clientAB))) 0)"
proof -
  let ?w = "simpleWorld (answers [])"
  let ?e = "OtherError ''connection refused''"
  have h: "heap clientAB = heapABC" "sent clientAB = []"
    by (simp_all add: clientAB_def simpleClient_def)
  have b: "fst (PerformRequest_request ?w searchOptions False
              (url (heap clientAB (selected clientAB 0)) @ pathWithParams searchOptions) clientAB)
            = Inr (searchRequest ''http://a:9200'')"
    "fst (PerformRequest_request ?w searchOptions False
              (url (heap clientAB (selected clientAB 1)) @ pathWithParams searchOptions) clientAB)
            = Inr (searchRequest ''http://b:9200'')"
    "fst (PerformRequest_request ?w searchOptions False
              (url (heap clientAB (selected clientAB 2)) @ pathWithParams searchOptions) clientAB)
            = Inr (searchRequest ''http://a:9200'')"
    by (simp_all only: clientAB_selected h heapABC_url example_request_any fst_conv)
  have n: "\<not> IsContextErr (Some ?e)" by (simp add: IsContextErr_def)
  have p: "retryUpTo 2 (0 + 1) (Some (searchRequest ''http://a:9200'')) None (Some ?e) = (0, True, None)"
    "retryUpTo 2 (0 + 2) (Some (searchRequest ''http://b:9200'')) None (Some ?e) = (0, True, None)"
    "retryUpTo 2 (0 + 3) (Some (searchRequest ''http://a:9200'')) None (Some ?e) = (0, False, None)"
    by (simp_all add: retryUpTo_def)
  have run: "PerformRequest ?w (Suc (Suc (Suc 0))) searchOptions clientAB =
      PerformRequest_loop ?w searchOptions (retryUpTo 2) [] False False (Suc (Suc (Suc 0))) 0 False
        clientAB"
    by (simp add: PerformRequest_def searchOptions_def clientAB_def simpleClient_def)
  obtain c' where c': "PerformRequest ?w (Suc (Suc (Suc 0))) searchOptions clientAB =
        Some (Return None (Some ?e), c')"
      "sent c' = sent clientAB @ [searchRequest ''http://a:9200'', searchRequest ''http://b:9200'',
          searchRequest ''http://a:9200'']"
      "heap c' = (heap clientAB)(selected clientAB 2 :=
          MarkAsDead (heap clientAB (selected clientAB 2)))"
    using loop_three_failures[where retr = "retryUpTo 2" and n = 0 and fuel = 0
        and retried = False and codes = "[]" and hc = False and gz = False and w = ?w
        and opt = searchOptions,
        OF clientAB_selected(1-3) b example_refused example_refused example_refused n n n p]
    unfolding run by blast
  show ?thesis
    unfolding c' by (simp add: c' h clientAB_selected heapABC_def newConn_def IsDead_def
        MarkAsDead_def)
qed

text \<open>
  C3, amended. With a live connection in the pool and the cursor in its range,
  if the first three sends of \<open>PerformRequest\<close> fail with errors that are no
  context errors, and the retry policy grants a retry at the attempts 1 and 2
  and declines at attempt 3, then \<open>PerformRequest\<close> makes exactly three sends
  (to the connections that three calls of \<open>next\<close> select), asks the policy three
  times, sleeps twice and returns the third error. Only the connection of the
  third send is marked dead, once, after the policy has declined; the two
  failed sends that are retried leave every connection as it was.
\<close>

theorem PerformRequest_three_attempts:
  assumes "-1 \<le> cindex c" and "cindex c < int (length (conns c))" and "live c \<noteq> []"
    and "retr = (case OptRetrier opt of Some r \<Rightarrow> r | None \<Rightarrow> retrier c)"
    and "opt' = (if Method opt = ''GET'' \<and> OptBody opt \<noteq> None \<and> sendGetBodyAs c \<noteq> ''GET''
                 then opt\<lparr>Method := sendGetBodyAs c\<rparr> else opt)"
    and "fst (PerformRequest_request w opt' (gzipEnabled c)
              (url (heap c (selected c 0)) @ pathWithParams opt') c) = Inr req1"
    and "fst (PerformRequest_request w opt' (gzipEnabled c)
              (url (heap c (selected c 1)) @ pathWithParams opt') c) = Inr req2"
    and "fst (PerformRequest_request w opt' (gzipEnabled c)
              (url (heap c (selected c 2)) @ pathWithParams opt') c) = Inr req3"
    and "Do w (length (sent c)) req1 = (res1, Some e1)"
    and "Do w (length (sent c) + 1) req2 = (res2, Some e2)"
    and "Do w (length (sent c) + 2) req3 = (res3, Some e3)"
    and "\<not> IsContextErr (Some e1)"
    and "\<not> IsContextErr (Some e2)"
    and "\<not> IsContextErr (Some e3)"
    and "retr 1 (Some req1) res1 (Some e1) = (wait1, True, None)"
    and "retr 2 (Some req2) res2 (Some e2) = (wait2, True, None)"
    and "retr 3 (Some req3) res3 (Some e3) = (wait3, False, None)"
  shows "\<exists>c'. PerformRequest w (Suc (Suc (Suc fuel))) opt c =
            Some (Return None (Some e3), c') \<and>
          sent c' = sent c @ [req1, req2, req3] \<and>
          consulted c' = consulted c @ [1, 2, 3] \<and>
          slept c' = slept c @ [wait1, wait2] \<and>
          heap c' = (heap c)(selected c 2 := MarkAsDead (heap c (selected c 2))) \<and>
          conns c' = conns c \<and>
          logged c' = logged c @
            (if errorlog c then [ErrorLog (NodeIsDead (url (heap c (selected c 2))))] else [])"
proof -
  have p: "retr (0 + 1) (Some req1) res1 (Some e1) = (wait1, True, None)"
    "retr (0 + 2) (Some req2) res2 (Some e2) = (wait2, True, None)"
    "retr (0 + 3) (Some req3) res3 (Some e3) = (wait3, False, None)"
    using assms(15-17) by simp_all
  have "PerformRequest w (Suc (Suc (Suc fuel))) opt c =
      PerformRequest_loop w opt' retr
        (case RetryStatusCodes opt of Some cs \<Rightarrow> cs | None \<Rightarrow> retryStatusCodes c)
        (healthcheckEnabled c) (gzipEnabled c) (Suc (Suc (Suc fuel))) 0 False c"
    unfolding PerformRequest_def Let_def assms(4,5) ..
  then show ?thesis
    using loop_three_failures[where retr = retr and n = 0 and fuel = fuel and retried = False
        and codes = "case RetryStatusCodes opt of Some cs \<Rightarrow> cs | None \<Rightarrow> retryStatusCodes c"
        and hc = "healthcheckEnabled c",
        OF assms(1-3) assms(6-14) p]
    by simp
qed

theorem PerformRequest_three_attempts_witness:
  "-1 \<le> cindex clientABC \<and> cindex clientABC < int (length (conns clientABC)) \<and>
   live clientABC \<noteq> [] \<and>
   Do (simpleWorld (answers [])) (length (sent clientABC)) (searchRequest ''http://a:9200'') =
     (None, Some (OtherError ''connection refused'')) \<and>
   \<not> IsContextErr (Some (OtherError ''connection refused'')) \<and>
   retrier clientABC 1 (Some (searchRequest ''http://a:9200'')) None
       (Some (OtherError ''connection refused'')) = (0, True, None) \<and>
   retrier clientABC 2 (Some (searchRequest ''http://b:9200'')) None
       (Some (OtherError ''connection refused'')) = (0, True, None) \<and>
   retrier clientABC 3 (Some (searchRequest ''http://c:9200'')) None
       (Some (OtherError ''connection refused'')) = (0, False, None) \<and>
   (\<exists>c'. PerformRequest (simpleWorld (answers [])) (Suc (Suc (Suc 0))) searchOptions clientABC =
            Some (Return None (Some (OtherError ''connection refused'')), c') \<and>
          sent c' = [searchRequest ''http://a:9200'', searchRequest ''http://b:9200'',
                     searchRequest ''http://c:9200''] \<and>
          consulted c' = [1, 2, 3] \<and>
          heap c' = heapABC(2 := MarkAsDead (heapABC 2)))"
proof -
  let ?w = "simpleWorld (answers [])"
  let ?e = "OtherError ''connection refused''"
  have h: "heap clientABC = heapABC" "sent clientABC = []" "consulted clientABC = []"
    "retrier clientABC = retryUpTo 2" "gzipEnabled clientABC = False"
    by (simp_all add: clientABC_def simpleClient_def)
  have r: "retryUpTo 2 = (case OptRetrier searchOptions of Some r \<Rightarrow> r | None \<Rightarrow> retrier clientABC)"
    by (simp add: searchOptions_def h)
  have o: "searchOptions = (if Method searchOptions = ''GET'' \<and> OptBody searchOptions \<noteq> None \<and>
                 sendGetBodyAs clientABC \<noteq> ''GET''
                 then searchOptions\<lparr>Method := sendGetBodyAs clientABC\<rparr> else searchOptions)"
    by (simp add: searchOptions_def)
  have b: "fst (PerformRequest_request ?w searchOptions (gzipEnabled clientABC)
              (url (heap clientABC (selected clientABC 0)) @ pathWithParams searchOptions) clientABC)
            = Inr (searchRequest ''http://a:9200'')"
    "fst (PerformRequest_request ?w searchOptions (gzipEnabled clientABC)
              (url (heap clientABC (selected clientABC 1)) @ pathWithParams searchOptions) clientABC)
            = Inr (searchRequest ''http://b:9200'')"
    "fst (PerformRequest_request ?w searchOptions (gzipEnabled clientABC)
              (url (heap clientABC (selected clientABC 2)) @ pathWithParams searchOptions) clientABC)
            = Inr (searchRequest ''http://c:9200'')"
    by (simp_all only: clientABC_selected h(1) heapABC_url example_request_any fst_conv)
  have n: "\<not> IsContextErr (Some ?e)" by (simp add: IsContextErr_def)
  have p: "retryUpTo 2 1 (Some (searchRequest ''http://a:9200'')) None (Some ?e) = (0, True, None)"
    "retryUpTo 2 2 (Some (searchRequest ''http://b:9200'')) None (Some ?e) = (0, True, None)"
    "retryUpTo 2 3 (Some (searchRequest ''http://c:9200'')) None (Some ?e) = (0, False, None)"
    by (simp_all add: retryUpTo_def)
  have m: "\<exists>c'. PerformRequest ?w (Suc (Suc (Suc 0))) searchOptions clientABC =
            Some (Return None (Some ?e), c') \<and>
          sent c' = [searchRequest ''http://a:9200'', searchRequest ''http://b:9200'',
                     searchRequest ''http://c:9200''] \<and>
          consulted c' = [1, 2, 3] \<and>
          heap c' = heapABC(2 := MarkAsDead (heapABC 2))"
    using PerformRequest_three_attempts[where retr = "retryUpTo 2" and opt' = searchOptions
        and fuel = 0 and w = ?w and opt = searchOptions,
        OF clientABC_selected(1-3) r o b example_refused example_refused example_refused n n n p]
    unfolding h clientABC_selected by auto
  show ?thesis
    unfolding h(4)
    by (intro conjI clientABC_selected(1-3) example_refused n p m)
qed

subsection \<open>Retry status codes\<close>












subsection \<open>startupHealthcheck\<close>

declare startupHealthcheck_loop.simps [simp del]

lemma lastRecorded_step:
  assumes "k < length tr"
  shows "lastRecorded w tr lastErr k = lastRecorded w tr (recorded w tr lastErr k) (Suc k)"
  using assms by (simp add: lastRecorded_def upt_conv_Cons)

lemma lastRecorded_end: "lastRecorded w tr lastErr (length tr) = lastErr"
  by (simp add: lastRecorded_def)

lemma recorded_append:
  "k < length tr \<Longrightarrow> recorded w (tr @ rest) lastErr k = recorded w tr lastErr k"
  by (simp add: recorded_def nth_append)

lemma foldl_recorded_append:
  "m \<le> length tr \<Longrightarrow>
   foldl (recorded w (tr @ rest)) lastErr [k..<m] = foldl (recorded w tr) lastErr [k..<m]"
proof (induction m arbitrary: lastErr)
  case 0
  show ?case by simp
next
  case (Suc m)
  then show ?case by (cases "k \<le> m") (simp_all add: recorded_append)
qed

lemma lastRecorded_append:
  assumes "k \<le> length tr"
  shows "lastRecorded w (tr @ rest) lastErr k =
    lastRecorded w (tr @ rest) (lastRecorded w tr lastErr k) (length tr)"
proof -
  have "[k..<length tr + length rest] = [k..<length tr] @ [length tr..<length tr + length rest]"
    using assms upt_add_eq_append[of k "length tr" "length rest"] by simp
  then show ?thesis
    by (simp add: lastRecorded_def foldl_recorded_append)
qed

lemma pass_ok_step:
  assumes ih: "pass_ok w us lastErr1 (c\<lparr>sent := sent c @ [req]\<rparr>) p c'"
    and rec: "\<And>tr. tr ! length (sent c) = req \<Longrightarrow> recorded w tr lastErr (length (sent c)) = lastErr1"
  shows "pass_ok w (u # us) lastErr c p c'"
proof -
  from ih obtain reqs where reqs: "sent c' = sent c @ [req] @ reqs" and u: "urls c' = urls c"
    by (auto simp: pass_ok_def)
  have k: "length (sent c) < length (sent c')" "sent c' ! length (sent c) = req"
    by (simp_all add: reqs nth_append)
  have "lastRecorded w (sent c') lastErr (length (sent c)) =
      lastRecorded w (sent c') lastErr1 (Suc (length (sent c)))"
    using lastRecorded_step[OF k(1)] rec[OF k(2)] by simp
  then show ?thesis
    using ih reqs u k(1)
    by (auto simp: pass_ok_def split: pass.splits option.splits)
qed

lemma startupHealthcheck_urls_ok:
  "startupHealthcheck_urls w us lastErr c = (p, c') \<Longrightarrow> pass_ok w us lastErr c p c'"
proof (induction us arbitrary: lastErr c)
  case Nil
  then show ?case by (auto simp: pass_ok_def lastRecorded_end)
next
  case (Cons u us)
  show ?case
  proof (cases "http_NewRequest w ''HEAD'' u")
    case (Inl err)
    with Cons.prems show ?thesis by (auto simp: pass_ok_def)
  next
    case (Inr req)
    let ?c1 = "c\<lparr>sent := sent c @ [req]\<rparr>"
    obtain res err where d: "Do w (length (sent c)) req = (res, err)" by force
    show ?thesis
    proof (cases err)
      case (Some e)
      with Cons.prems Inr d have "startupHealthcheck_urls w us (Some e) ?c1 = (p, c')"
        by (cases res) (simp_all add: c_Do_def)
      from Cons.IH[OF this] show ?thesis
        by (rule pass_ok_step) (simp add: recorded_def d Some split: option.splits)
    next
      case None
      show ?thesis
      proof (cases res)
        case None
        with Cons.prems Inr d \<open>err = None\<close> show ?thesis
          by (auto simp: c_Do_def pass_ok_def)
      next
        case (Some r)
        consider "StatusCode r \<ge> 200 \<and> StatusCode r < 300"
          | "\<not> (StatusCode r \<ge> 200 \<and> StatusCode r < 300)" "StatusCode r = 401"
          | "\<not> (StatusCode r \<ge> 200 \<and> StatusCode r < 300)" "StatusCode r \<noteq> 401"
          by blast
        then show ?thesis
        proof cases
          case 1
          with Cons.prems Inr d \<open>err = None\<close> Some show ?thesis
            by (auto simp: c_Do_def pass_ok_def)
        next
          case 2
          with Cons.prems Inr d \<open>err = None\<close> Some
          have "startupHealthcheck_urls w us (Some (ElasticError 401 None)) ?c1 = (p, c')"
            by (simp add: c_Do_def)
          from Cons.IH[OF this] show ?thesis
            by (rule pass_ok_step) (simp add: recorded_def d \<open>err = None\<close> Some 2)
        next
          case 3
          with Cons.prems Inr d \<open>err = None\<close> Some
          have "startupHealthcheck_urls w us lastErr ?c1 = (p, c')"
            by (simp add: c_Do_def)
          from Cons.IH[OF this] show ?thesis
            by (rule pass_ok_step) (simp add: recorded_def d \<open>err = None\<close> Some 3)
        qed
      qed
    qed
  qed
qed

lemma startupHealthcheck_end_context [simp]:
  "startupHealthcheck_end (Some ContextCanceled) = Some ContextCanceled"
  "startupHealthcheck_end (Some ContextDeadlineExceeded) = Some ContextDeadlineExceeded"
  by (simp_all add: startupHealthcheck_end_def IsContextErr_def)

lemma startupHealthcheck_loop_ok:
  "startupHealthcheck_loop w fuel round lastErr c = Some (res, c') \<Longrightarrow>
   startup_ok w lastErr c res c'"
proof (induction fuel arbitrary: round lastErr c)
  case 0
  then show ?case by (simp add: startupHealthcheck_loop.simps)
next
  case (Suc fuel)
  obtain p c1 where p: "startupHealthcheck_urls w (urls c) lastErr c = (p, c1)" by force
  from startupHealthcheck_urls_ok[OF p]
  obtain reqs where ok: "sent c1 = sent c @ reqs" "urls c1 = urls c"
    and pk: "case p of
        PassEnd e \<Rightarrow> e = lastRecorded w (sent c1) lastErr (length (sent c))
      | PassReturn None \<Rightarrow>
          length (sent c) < length (sent c1) \<and>
          (\<exists>r. Do w (length (sent c1) - 1) (last (sent c1)) = (Some r, None) \<and>
               200 \<le> StatusCode r \<and> StatusCode r < 300)
      | PassReturn (Some e) \<Rightarrow> (\<exists>u \<in> set (urls c). http_NewRequest w ''HEAD'' u = Inl e)
      | PassPanic \<Rightarrow> True"
    by (auto simp: pass_ok_def)
  show ?case
  proof (cases p)
    case (PassReturn r)
    with Suc.prems p have r: "res = Return None r" "c' = c1"
      by (simp_all add: startupHealthcheck_loop.simps)
    show ?thesis
      using pk ok unfolding PassReturn r startup_ok_def
      by (cases r) auto
  next
    case PassPanic
    with Suc.prems p have "res = Panic" "c' = c1"
      by (simp_all add: startupHealthcheck_loop.simps)
    then show ?thesis using ok by (simp add: startup_ok_def)
  next
    case (PassEnd e)
    with pk have e: "e = lastRecorded w (sent c1) lastErr (length (sent c))" by simp
    show ?thesis
    proof (cases "startupSelect w round")
      case ParentCanceled
      with Suc.prems p PassEnd have "res = Return None (Some ContextCanceled)" "c' = c1"
        by (simp_all add: startupHealthcheck_loop.simps)
      then show ?thesis using ok ParentCanceled by (auto simp: startup_ok_def)
    next
      case ParentDeadlineExceeded
      with Suc.prems p PassEnd have "res = Return None (Some ContextDeadlineExceeded)" "c' = c1"
        by (simp_all add: startupHealthcheck_loop.simps)
      then show ?thesis using ok ParentDeadlineExceeded by (auto simp: startup_ok_def)
    next
      case (TimeAfter elapsed)
      show ?thesis
      proof (cases elapsed)
        case True
        with Suc.prems p PassEnd TimeAfter
        have "res = Return None (startupHealthcheck_end e)" "c' = c1"
          by (simp_all add: startupHealthcheck_loop.simps)
        then show ?thesis using ok TimeAfter True e by (auto simp: startup_ok_def)
      next
        case False
        with Suc.prems p PassEnd TimeAfter
        have "startupHealthcheck_loop w fuel (Suc round) e c1 = Some (res, c')"
          by (simp add: startupHealthcheck_loop.simps)
        from Suc.IH[OF this] have ih: "startup_ok w e c1 res c'" .
        then obtain reqs' where r': "sent c' = sent c1 @ reqs'" "urls c' = urls c1"
          by (auto simp: startup_ok_def)
        have lr: "lastRecorded w (sent c') e (length (sent c1)) =
            lastRecorded w (sent c') lastErr (length (sent c))"
          unfolding r'(1) e
          using lastRecorded_append[of "length (sent c)" "sent c1" w reqs' lastErr]
          by (simp add: ok(1))
        show ?thesis
          using ih unfolding startup_ok_def lr
          by (auto simp: ok r')
      qed
    qed
  qed
qed

lemma startupHealthcheck_loop_returns:
  "startupSelect w (round + R) \<noteq> TimeAfter False \<Longrightarrow>
   startupHealthcheck_loop w (Suc R) round lastErr c \<noteq> None"
proof (induction R arbitrary: round lastErr c)
  case 0
  then show ?case
    by (cases "startupSelect w round")
       (auto simp: startupHealthcheck_loop.simps split: prod.splits pass.splits)
next
  case (Suc R)
  have "startupHealthcheck_loop w (Suc R) (Suc round) e c1 \<noteq> None" for e c1
    using Suc.IH[of "Suc round" e c1] Suc.prems by simp
  then show ?case
    by (subst startupHealthcheck_loop.simps)
       (auto split: prod.splits pass.splits select_outcome.splits)
qed

lemma startupHealthcheck_urls_prefix:
  assumes "j \<le> length us"
    and "\<forall>i<j. http_NewRequest w ''HEAD'' (us ! i) = Inr (mk (us ! i))"
    and "\<forall>i<j. failed (Do w (length (sent c) + i) (mk (us ! i)))"
  shows "\<exists>e. startupHealthcheck_urls w us lastErr c =
           startupHealthcheck_urls w (drop j us) e (c\<lparr>sent := sent c @ map mk (take j us)\<rparr>)"
  using assms
proof (induction us arbitrary: j lastErr c)
  case Nil
  then show ?case by auto
next
  case (Cons u us)
  show ?case
  proof (cases j)
    case 0
    then show ?thesis by auto
  next
    case (Suc j')
    let ?c1 = "c\<lparr>sent := sent c @ [mk u]\<rparr>"
    from Cons.prems Suc have n: "http_NewRequest w ''HEAD'' u = Inr (mk u)"
      and f: "failed (Do w (length (sent c)) (mk u))" by force+
    have j': "j' \<le> length us" using Cons.prems Suc by simp
    have n': "\<forall>i<j'. http_NewRequest w ''HEAD'' (us ! i) = Inr (mk (us ! i))"
      using Cons.prems(2) Suc by force
    have f': "\<forall>i<j'. failed (Do w (length (sent ?c1) + i) (mk (us ! i)))"
    proof (intro allI impI)
      fix i assume "i < j'"
      then have "failed (Do w (length (sent c) + Suc i) (mk ((u # us) ! Suc i)))"
        using Cons.prems(3) Suc by blast
      then show "failed (Do w (length (sent ?c1) + i) (mk (us ! i)))" by simp
    qed
    from f have "\<exists>e1. startupHealthcheck_urls w (u # us) lastErr c =
        startupHealthcheck_urls w us e1 ?c1"
      by (cases "Do w (length (sent c)) (mk u)")
         (auto simp: n c_Do_def failed_def split: option.splits)
    then obtain e1 where
      s: "startupHealthcheck_urls w (u # us) lastErr c = startupHealthcheck_urls w us e1 ?c1"
      by blast
    from Cons.IH[OF j' n' f', of e1] obtain e where
      "startupHealthcheck_urls w us e1 ?c1 =
         startupHealthcheck_urls w (drop j' us) e (?c1\<lparr>sent := sent ?c1 @ map mk (take j' us)\<rparr>)"
      by blast
    with s Suc show ?thesis by auto
  qed
qed


lemma startupHealthcheck_urls_failed:
  assumes "\<forall>u \<in> set us. http_NewRequest w ''HEAD'' u = Inr (mk u)"
    and "\<forall>i<length us. failed (Do w (length (sent c) + i) (mk (us ! i)))"
  shows "startupHealthcheck_urls w us lastErr c =
    (PassEnd (lastRecorded w (sent c @ map mk us) lastErr (length (sent c))),
     c\<lparr>sent := sent c @ map mk us\<rparr>)"
proof -
  from startupHealthcheck_urls_prefix[of "length us" us w mk c lastErr] assms obtain e where
    e: "startupHealthcheck_urls w us lastErr c = (PassEnd e, c\<lparr>sent := sent c @ map mk us\<rparr>)"
    by auto
  from startupHealthcheck_urls_ok[OF e] show ?thesis
    unfolding e by (simp add: pass_ok_def)
qed

lemma startupHealthcheck_urls_hit:
  assumes "\<forall>u \<in> set us. http_NewRequest w ''HEAD'' u = Inr (mk u)"
    and "j < length us"
    and "\<forall>i<j. failed (Do w (length (sent c) + i) (mk (us ! i)))"
    and "Do w (length (sent c) + j) (mk (us ! j)) = (Some r, None)"
    and "200 \<le> StatusCode r" "StatusCode r < 300"
  shows "startupHealthcheck_urls w us lastErr c =
    (PassReturn None, c\<lparr>sent := sent c @ map mk (take (Suc j) us)\<rparr>)"
proof -
  from startupHealthcheck_urls_prefix[of j us w mk c lastErr] assms(1,2,3) obtain e where
    e: "startupHealthcheck_urls w us lastErr c =
      startupHealthcheck_urls w (drop j us) e (c\<lparr>sent := sent c @ map mk (take j us)\<rparr>)"
    by auto
  have d: "drop j us = us ! j # drop (Suc j) us"
    using assms(2) by (simp add: Cons_nth_drop_Suc)
  have n: "http_NewRequest w ''HEAD'' (us ! j) = Inr (mk (us ! j))"
    using assms(1,2) by simp
  show ?thesis
    unfolding e d using assms(2,4,5,6)
    by (simp add: n c_Do_def take_Suc_conv_app_nth)
qed

lemma length_concat_replicate:
  "length (concat (replicate R xs)) = R * length xs"
  by (induction R) simp_all

lemma startupHealthcheck_loop_passes:
  assumes "\<forall>u \<in> set (urls c). http_NewRequest w ''HEAD'' u = Inr (mk u)"
    and "\<forall>r<R. \<forall>i<length (urls c).
           failed (Do w (length (sent c) + r * length (urls c) + i) (mk (urls c ! i)))"
    and "\<forall>r<R. startupSelect w (round + r) = TimeAfter False"
  shows "startupHealthcheck_loop w (R + fuel) round lastErr c =
    startupHealthcheck_loop w fuel (round + R)
      (lastRecorded w (sent c @ concat (replicate R (map mk (urls c)))) lastErr (length (sent c)))
      (c\<lparr>sent := sent c @ concat (replicate R (map mk (urls c)))\<rparr>)"
  using assms
proof (induction R arbitrary: round lastErr c)
  case 0
  show ?case by (simp add: lastRecorded_end)
next
  case (Suc R)
  let ?m = "length (urls c)"
  let ?p = "map mk (urls c)"
  let ?c1 = "c\<lparr>sent := sent c @ ?p\<rparr>"
  let ?e1 = "lastRecorded w (sent c @ ?p) lastErr (length (sent c))"
  have f0: "\<forall>i<?m. failed (Do w (length (sent c) + i) (mk (urls c ! i)))"
    using Suc.prems(2) by force
  have s0: "startupSelect w round = TimeAfter False"
    using Suc.prems(3) by force
  have step: "startupHealthcheck_loop w (Suc R + fuel) round lastErr c =
      startupHealthcheck_loop w (R + fuel) (Suc round) ?e1 ?c1"
    by (simp add: startupHealthcheck_loop.simps startupHealthcheck_urls_failed[OF Suc.prems(1) f0] s0)
  have n1: "\<forall>u \<in> set (urls ?c1). http_NewRequest w ''HEAD'' u = Inr (mk u)"
    using Suc.prems(1) by simp
  have f1: "\<forall>r<R. \<forall>i<length (urls ?c1).
           failed (Do w (length (sent ?c1) + r * length (urls ?c1) + i) (mk (urls ?c1 ! i)))"
  proof (intro allI impI)
    fix r i assume "r < R" "i < length (urls ?c1)"
    then have "Suc r < Suc R" "i < ?m" by simp_all
    with Suc.prems(2)
    have "failed (Do w (length (sent c) + Suc r * ?m + i) (mk (urls c ! i)))"
      by blast
    then show "failed (Do w (length (sent ?c1) + r * length (urls ?c1) + i) (mk (urls ?c1 ! i)))"
      by (simp add: add.assoc)
  qed
  have s1: "\<forall>r<R. startupSelect w (Suc round + r) = TimeAfter False"
    using Suc.prems(3) by force
  have lr: "lastRecorded w (sent c @ ?p @ concat (replicate R ?p)) ?e1
        (length (sent c) + length (urls c)) =
      lastRecorded w (sent c @ ?p @ concat (replicate R ?p)) lastErr (length (sent c))"
    using lastRecorded_append[of "length (sent c)" "sent c @ ?p" w "concat (replicate R ?p)" lastErr]
    by simp
  have ih: "startupHealthcheck_loop w (R + fuel) (Suc round) ?e1 ?c1 =
      startupHealthcheck_loop w fuel (round + Suc R)
        (lastRecorded w (sent c @ concat (replicate (Suc R) ?p)) lastErr (length (sent c)))
        (c\<lparr>sent := sent c @ concat (replicate (Suc R) ?p)\<rparr>)"
    using Suc.IH[OF n1 f1 s1, of ?e1] by (simp add: lr)
  show ?case
    using step ih by simp
qed


lemma startupHealthcheck_passes:
  assumes "passes_fail w mk c R j"
  shows "startupHealthcheck w (R + fuel) c =
    startupHealthcheck_loop w fuel R
      (lastRecorded w (sent c @ probes mk c R 0) None (length (sent c)))
      (c\<lparr>sent := sent c @ probes mk c R 0\<rparr>)"
    and "\<forall>i<j. failed (Do w (length (sent (c\<lparr>sent := sent c @ probes mk c R 0\<rparr>)) + i)
                        (mk (urls c ! i)))"
proof -
  from assms have n: "\<forall>u \<in> set (urls c). http_NewRequest w ''HEAD'' u = Inr (mk u)"
    and f: "\<forall>r<R. \<forall>i<length (urls c).
           failed (Do w (length (sent c) + r * length (urls c) + i) (mk (urls c ! i)))"
    and s: "\<forall>r<R. startupSelect w (0 + r) = TimeAfter False"
    by (auto simp: passes_fail_def probe_def)
  show "startupHealthcheck w (R + fuel) c =
    startupHealthcheck_loop w fuel R
      (lastRecorded w (sent c @ probes mk c R 0) None (length (sent c)))
      (c\<lparr>sent := sent c @ probes mk c R 0\<rparr>)"
    using startupHealthcheck_loop_passes[OF n f s, of fuel None]
    by (simp add: startupHealthcheck_def probes_def)
  show "\<forall>i<j. failed (Do w (length (sent (c\<lparr>sent := sent c @ probes mk c R 0\<rparr>)) + i)
                        (mk (urls c ! i)))"
    using assms by (auto simp: passes_fail_def probe_def probes_def length_concat_replicate)
qed

lemma startupHealthcheck_hit:
  assumes "passes_fail w mk c R j" and "j < length (urls c)"
    and "probe w mk c R j = (Some r, None)" and "200 \<le> StatusCode r" and "StatusCode r < 300"
  shows "startupHealthcheck w (Suc R + fuel) c =
    Some (Return None None, c\<lparr>sent := sent c @ probes mk c R (Suc j)\<rparr>)"
proof -
  let ?c = "c\<lparr>sent := sent c @ probes mk c R 0\<rparr>"
  from assms(1) have n: "\<forall>u \<in> set (urls c). http_NewRequest w ''HEAD'' u = Inr (mk u)"
    by (simp add: passes_fail_def)
  have d: "Do w (length (sent ?c) + j) (mk (urls c ! j)) = (Some r, None)"
    using assms(3) by (simp add: probe_def probes_def length_concat_replicate)
  have "startupHealthcheck w (R + Suc fuel) c =
      Some (Return None None, ?c\<lparr>sent := sent ?c @ map mk (take (Suc j) (urls c))\<rparr>)"
    unfolding startupHealthcheck_passes(1)[OF assms(1)]
    by (simp add: startupHealthcheck_loop.simps
        startupHealthcheck_urls_hit[OF n assms(2) startupHealthcheck_passes(2)[OF assms(1)] d assms(4,5)])
  then show ?thesis by (simp add: probes_def)
qed

lemma startupHealthcheck_timeout:
  assumes "passes_fail w mk c R (length (urls c))" and "startupSelect w R \<noteq> TimeAfter False"
  shows "startupHealthcheck w (Suc R + fuel) c =
    Some (Return None
            (case startupSelect w R of
               ParentCanceled \<Rightarrow> Some ContextCanceled
             | ParentDeadlineExceeded \<Rightarrow> Some ContextDeadlineExceeded
             | TimeAfter elapsed \<Rightarrow>
                 startupHealthcheck_end
                   (lastRecorded w (sent c @ probes mk c R (length (urls c))) None
                      (length (sent c)))),
          c\<lparr>sent := sent c @ probes mk c R (length (urls c))\<rparr>)"
proof -
  let ?c = "c\<lparr>sent := sent c @ probes mk c R 0\<rparr>"
  let ?e = "lastRecorded w (sent c @ probes mk c R 0) None (length (sent c))"
  from assms(1) have n: "\<forall>u \<in> set (urls ?c). http_NewRequest w ''HEAD'' u = Inr (mk u)"
    by (simp add: passes_fail_def)
  have f: "\<forall>i<length (urls ?c). failed (Do w (length (sent ?c) + i) (mk (urls ?c ! i)))"
    using startupHealthcheck_passes(2)[OF assms(1)] by simp
  have p: "startupHealthcheck_urls w (urls ?c) ?e ?c =
      (PassEnd (lastRecorded w (sent ?c @ map mk (urls ?c)) ?e (length (sent ?c))),
       ?c\<lparr>sent := sent ?c @ map mk (urls ?c)\<rparr>)"
    by (rule startupHealthcheck_urls_failed[OF n f])
  have lr: "lastRecorded w (sent ?c @ map mk (urls ?c)) ?e (length (sent ?c)) =
      lastRecorded w (sent c @ probes mk c R (length (urls c))) None (length (sent c))"
    using lastRecorded_append[of "length (sent c)" "sent c @ probes mk c R 0" w
        "map mk (urls c)" None]
    by (simp add: probes_def)
  have c: "?c\<lparr>sent := sent ?c @ map mk (urls ?c)\<rparr> =
      c\<lparr>sent := sent c @ probes mk c R (length (urls c))\<rparr>"
    by (simp add: probes_def)
  have "startupHealthcheck w (R + Suc fuel) c =
    Some (Return None
            (case startupSelect w R of
               ParentCanceled \<Rightarrow> Some ContextCanceled
             | ParentDeadlineExceeded \<Rightarrow> Some ContextDeadlineExceeded
             | TimeAfter elapsed \<Rightarrow>
                 startupHealthcheck_end
                   (lastRecorded w (sent c @ probes mk c R (length (urls c))) None
                      (length (sent c)))),
          c\<lparr>sent := sent c @ probes mk c R (length (urls c))\<rparr>)"
    unfolding startupHealthcheck_passes(1)[OF assms(1)]
    apply (subst startupHealthcheck_loop.simps)
    unfolding p lr c
    using assms(2)
    by (cases "startupSelect w R") simp_all
  then show ?thesis by simp
qed

lemma head_request:
  "http_NewRequest (simpleWorld d) ''HEAD'' u = Inr (headRequest u)"
  "http_NewRequest (patientWorld d) ''HEAD'' u = Inr (headRequest u)"
  by (simp_all add: simpleWorld_def patientWorld_def headRequest_def)

text \<open>
  An answer 401 is not fatal at once, and is not always handed to the caller.
  With one URL answered first by 401 and then, the timeout not yet elapsed, by
  200, the check sends two requests and returns nil. With two URLs, the first
  answered by 401 and the second refused, and the timeout elapsed after the
  pass, the check returns the refusal wrapped in \<open>ErrNoClient\<close>.
\<close>

theorem startupHealthcheck_unauthorized_counterexample:
  "Do (patientWorld (answers [(Some (status 401), None), (Some (status 200), None)])) 0
      (headRequest ''http://a:9200'') = (Some (status 401), None) \<and>
   map_option fst
     (startupHealthcheck (patientWorld (answers [(Some (status 401), None), (Some (status 200), None)]))
        (Suc (Suc 0)) (seedClient [''http://a:9200''])) = Some (Return None None) \<and>
   sent (snd (the
     (startupHealthcheck (patientWorld (answers [(Some (status 401), None), (Some (status 200), None)]))
        (Suc (Suc 0)) (seedClient [''http://a:9200''])))) =
     [headRequest ''http://a:9200'', headRequest ''http://a:9200''] \<and>
   Do (simpleWorld (answers [(Some (status 401), None)])) 0
      (headRequest ''http://a:9200'') = (Some (status 401), None) \<and>
   map_option fst
     (startupHealthcheck (simpleWorld (answers [(Some (status 401), None)]))
        (Suc 0) (seedClient [''http://a:9200'', ''http://b:9200''])) =
     Some (Return None (Some (ErrorsWrapf ErrNoClient ''health check timeout: %v''
                                (OtherError ''connection refused''))))"
  by (simp add: startupHealthcheck_def startupHealthcheck_loop.simps head_request c_Do_def
      patientWorld_def simpleWorld_def answers_def status_def seedClient_def simpleClient_def
      startupHealthcheck_end_def IsContextErr_def IsUnauthorized_def headRequest_def)

text \<open>
  C8, amended. \<open>startupHealthcheck\<close> passes over all the URLs, one request each,
  pass after pass. Let every pass before pass \<open>R\<close> fail at every URL (an error
  of the request, a cancellation or a timeout of the probe among them, or a
  status outside [200, 299], 401 among them) and be followed by a \<open>select\<close> that
  finds neither the calling context done nor the timeout elapsed. Then:

  \<^item> if in pass \<open>R\<close> the URLs before position \<open>j\<close> fail and the URL at position \<open>j\<close>
    is answered with a status in [200, 299], the check returns nil at once,
    having sent exactly the requests of \<open>R\<close> passes and \<open>j + 1\<close> more: no earlier
    error or 401 is fatal;
  \<^item> if pass \<open>R\<close> fails at every URL and the \<open>select\<close> after it finds the calling
    context done, the check returns the error of that context as it is; if
    the timer finds the timeout elapsed, it returns what the end of the
    function makes of the last error kept, an error of a request and an answer
    401 each overwriting what was kept before and no other answer changing it.
    Either way it has sent exactly the requests of \<open>R + 1\<close> passes.

  The end of the function returns the error kept as it is when it is a context
  error or an \<open>Error\<close> with the status 401, wraps any other error in
  \<open>ErrNoClient\<close>, and returns a wrapped \<open>ErrNoClient\<close> when none was kept. Whatever
  the answers, the check returns after \<open>R + 1\<close> passes at the latest when the
  \<open>select\<close> after pass \<open>R\<close> finds the context done or the timeout elapsed, and
  whenever it returns it has only sent requests and its result is one of:
  a panic (a nil response without an error); nil, after a request answered with
  a status in [200, 299]; the error of \<open>http.NewRequest\<close> for a URL; the error of
  the calling context; what the end of the function makes of the last error
  kept.
\<close>

theorem startupHealthcheck_result:
  "(passes_fail w mk c R j \<and> j < length (urls c) \<and> probe w mk c R j = (Some r, None) \<and>
    200 \<le> StatusCode r \<and> StatusCode r < 300 \<longrightarrow>
      startupHealthcheck w (Suc R + extra) c =
        Some (Return None None, c\<lparr>sent := sent c @ probes mk c R (Suc j)\<rparr>)) \<and>
   (passes_fail w mk c R (length (urls c)) \<and> startupSelect w R \<noteq> TimeAfter False \<longrightarrow>
      startupHealthcheck w (Suc R + extra) c =
        Some (Return None
                (case startupSelect w R of
                   ParentCanceled \<Rightarrow> Some ContextCanceled
                 | ParentDeadlineExceeded \<Rightarrow> Some ContextDeadlineExceeded
                 | TimeAfter elapsed \<Rightarrow>
                     startupHealthcheck_end
                       (lastRecorded w (sent c @ probes mk c R (length (urls c))) None
                          (length (sent c)))),
              c\<lparr>sent := sent c @ probes mk c R (length (urls c))\<rparr>)) \<and>
   (startupSelect w R \<noteq> TimeAfter False \<longrightarrow> startupHealthcheck w (Suc R) c \<noteq> None) \<and>
   (\<forall>res c'. startupHealthcheck w fuel c = Some (res, c') \<longrightarrow>
      (\<exists>reqs. sent c' = sent c @ reqs) \<and>
      (res = Panic \<or>
       res = Return None None \<and> length (sent c) < length (sent c') \<and>
         (\<exists>r. Do w (length (sent c') - 1) (last (sent c')) = (Some r, None) \<and>
              200 \<le> StatusCode r \<and> StatusCode r < 300) \<or>
       (\<exists>u \<in> set (urls c). \<exists>e. http_NewRequest w ''HEAD'' u = Inl e \<and>
          res = Return None (Some e)) \<or>
       (\<exists>k. startupSelect w k = ParentCanceled) \<and> res = Return None (Some ContextCanceled) \<or>
       (\<exists>k. startupSelect w k = ParentDeadlineExceeded) \<and>
         res = Return None (Some ContextDeadlineExceeded) \<or>
       (\<exists>k. startupSelect w k = TimeAfter True) \<and>
         res = Return None
                 (startupHealthcheck_end (lastRecorded w (sent c') None (length (sent c)))))) \<and>
   startupHealthcheck_end None = Some (ErrorsWrap ErrNoClient ''health check timeout'') \<and>
   (\<forall>e. startupHealthcheck_end (Some e) =
      (if IsContextErr (Some e) \<or> IsUnauthorized (Some e) then Some e
       else Some (ErrorsWrapf ErrNoClient ''health check timeout: %v'' e)) \<and>
      Cause (ErrorsWrapf ErrNoClient ''health check timeout: %v'' e) = ErrNoClient)"
proof -
  have H: "passes_fail w mk c R j \<and> j < length (urls c) \<and> probe w mk c R j = (Some r, None) \<and>
    200 \<le> StatusCode r \<and> StatusCode r < 300 \<longrightarrow>
      startupHealthcheck w (Suc R + extra) c =
        Some (Return None None, c\<lparr>sent := sent c @ probes mk c R (Suc j)\<rparr>)"
    using startupHealthcheck_hit[of w mk c R j r extra] by blast
  have T: "passes_fail w mk c R (length (urls c)) \<and> startupSelect w R \<noteq> TimeAfter False \<longrightarrow>
      startupHealthcheck w (Suc R + extra) c =
        Some (Return None
                (case startupSelect w R of
                   ParentCanceled \<Rightarrow> Some ContextCanceled
                 | ParentDeadlineExceeded \<Rightarrow> Some ContextDeadlineExceeded
                 | TimeAfter elapsed \<Rightarrow>
                     startupHealthcheck_end
                       (lastRecorded w (sent c @ probes mk c R (length (urls c))) None
                          (length (sent c)))),
              c\<lparr>sent := sent c @ probes mk c R (length (urls c))\<rparr>)"
    using startupHealthcheck_timeout[of w mk c R extra] by blast
  have A: "startupSelect w R \<noteq> TimeAfter False \<longrightarrow> startupHealthcheck w (Suc R) c \<noteq> None"
    using startupHealthcheck_loop_returns[of w 0 R None c]
    by (simp add: startupHealthcheck_def)
  have B: "\<forall>res c'. startupHealthcheck w fuel c = Some (res, c') \<longrightarrow> startup_ok w None c res c'"
    using startupHealthcheck_loop_ok[of w fuel 0 None c]
    by (simp add: startupHealthcheck_def)
  have C: "startupHealthcheck_end None = Some (ErrorsWrap ErrNoClient ''health check timeout'')"
    "\<forall>e. startupHealthcheck_end (Some e) =
      (if IsContextErr (Some e) \<or> IsUnauthorized (Some e) then Some e
       else Some (ErrorsWrapf ErrNoClient ''health check timeout: %v'' e)) \<and>
      Cause (ErrorsWrapf ErrNoClient ''health check timeout: %v'' e) = ErrNoClient"
    by (simp_all add: startupHealthcheck_end_def)
  have B': "\<forall>res c'. startupHealthcheck w fuel c = Some (res, c') \<longrightarrow>
      (\<exists>reqs. sent c' = sent c @ reqs) \<and>
      (res = Panic \<or>
       res = Return None None \<and> length (sent c) < length (sent c') \<and>
         (\<exists>r. Do w (length (sent c') - 1) (last (sent c')) = (Some r, None) \<and>
              200 \<le> StatusCode r \<and> StatusCode r < 300) \<or>
       (\<exists>u \<in> set (urls c). \<exists>e. http_NewRequest w ''HEAD'' u = Inl e \<and>
          res = Return None (Some e)) \<or>
       (\<exists>k. startupSelect w k = ParentCanceled) \<and> res = Return None (Some ContextCanceled) \<or>
       (\<exists>k. startupSelect w k = ParentDeadlineExceeded) \<and>
         res = Return None (Some ContextDeadlineExceeded) \<or>
       (\<exists>k. startupSelect w k = TimeAfter True) \<and>
         res = Return None
                 (startupHealthcheck_end (lastRecorded w (sent c') None (length (sent c)))))"
    using B unfolding startup_ok_def by blast
  show ?thesis
    by (intro conjI H T A B' C)
qed

theorem startupHealthcheck_result_witness:
  "http_NewRequest probedWorld ''HEAD'' ''http://a:9200'' = Inr (headRequest ''http://a:9200'') \<and>
   http_NewRequest probedWorld ''HEAD'' ''http://b:9200'' = Inr (headRequest ''http://b:9200'') \<and>
   probe probedWorld headRequest seedAB 0 0 = (Some (status 401), None) \<and>
   probe probedWorld headRequest seedAB 0 1 = (None, Some (UrlError True ContextDeadlineExceeded)) \<and>
   startupSelect probedWorld 0 = TimeAfter False \<and>
   probe probedWorld headRequest seedAB 1 0 = (Some (status 503), None) \<and>
   probe probedWorld headRequest seedAB 1 1 = (Some (status 200), None) \<and>
   startupHealthcheck probedWorld (Suc (Suc 0)) seedAB =
     Some (Return None None,
           seedAB\<lparr>sent := [headRequest ''http://a:9200'', headRequest ''http://b:9200'',
                            headRequest ''http://a:9200'', headRequest ''http://b:9200'']\<rparr>) \<and>
   http_NewRequest deniedWorld ''HEAD'' ''http://a:9200'' = Inr (headRequest ''http://a:9200'') \<and>
   http_NewRequest deniedWorld ''HEAD'' ''http://b:9200'' = Inr (headRequest ''http://b:9200'') \<and>
   probe deniedWorld headRequest seedAB 0 0 = (Some (status 503), None) \<and>
   probe deniedWorld headRequest seedAB 0 1 = (Some (status 401), None) \<and>
   startupSelect deniedWorld 0 = TimeAfter True \<and>
   startupHealthcheck deniedWorld (Suc 0) seedAB =
     Some (Return None (Some (ElasticError 401 None)),
           seedAB\<lparr>sent := [headRequest ''http://a:9200'', headRequest ''http://b:9200'']\<rparr>)"
proof -
  have f: "urls seedAB = [''http://a:9200'', ''http://b:9200'']" "sent seedAB = []"
    by (simp_all add: seedAB_def seedClient_def simpleClient_def)
  have n: "http_NewRequest probedWorld ''HEAD'' u = Inr (headRequest u)"
    "http_NewRequest deniedWorld ''HEAD'' u = Inr (headRequest u)" for u
    by (simp_all add: probedWorld_def deniedWorld_def head_request)
  have p: "probe probedWorld headRequest seedAB 0 0 = (Some (status 401), None)"
    "probe probedWorld headRequest seedAB 0 1 = (None, Some (UrlError True ContextDeadlineExceeded))"
    "probe probedWorld headRequest seedAB 1 0 = (Some (status 503), None)"
    "probe probedWorld headRequest seedAB 1 1 = (Some (status 200), None)"
    by (simp_all add: probe_def f probedWorld_def patientWorld_def simpleWorld_def answers_def)
  have q: "probe deniedWorld headRequest seedAB 0 0 = (Some (status 503), None)"
    "probe deniedWorld headRequest seedAB 0 1 = (Some (status 401), None)"
    by (simp_all add: probe_def f deniedWorld_def simpleWorld_def answers_def)
  have s: "startupSelect probedWorld 0 = TimeAfter False"
    "startupSelect deniedWorld 0 = TimeAfter True"
    by (simp_all add: probedWorld_def deniedWorld_def patientWorld_def simpleWorld_def)
  have pf: "passes_fail probedWorld headRequest seedAB (Suc 0) (Suc 0)"
    by (simp add: passes_fail_def f n p [unfolded One_nat_def] s failed_def status_def
        atLeast0_lessThan_Suc)
  have qf: "passes_fail deniedWorld headRequest seedAB 0 (length (urls seedAB))"
    by (simp add: passes_fail_def f n q [unfolded One_nat_def] failed_def status_def
        atLeast0_lessThan_Suc)
  have ok: "200 \<le> StatusCode (status 200)" "StatusCode (status 200) < 300"
    by (simp_all add: status_def)
  have "startupHealthcheck probedWorld (Suc (Suc 0) + 0) seedAB =
      Some (Return None None,
            seedAB\<lparr>sent := sent seedAB @ probes headRequest seedAB (Suc 0) (Suc (Suc 0))\<rparr>)"
    using startupHealthcheck_result [of probedWorld headRequest seedAB "Suc 0" "Suc 0"
        "status 200" 0] pf p(4) ok f(1)
    by simp
  then have h: "startupHealthcheck probedWorld (Suc (Suc 0)) seedAB =
     Some (Return None None,
           seedAB\<lparr>sent := [headRequest ''http://a:9200'', headRequest ''http://b:9200'',
                            headRequest ''http://a:9200'', headRequest ''http://b:9200'']\<rparr>)"
    by (simp add: probes_def f)
  have "startupHealthcheck deniedWorld (Suc 0 + 0) seedAB =
      Some (Return None
              (startupHealthcheck_end
                 (lastRecorded deniedWorld
                    (sent seedAB @ probes headRequest seedAB 0 (length (urls seedAB))) None
                    (length (sent seedAB)))),
            seedAB\<lparr>sent := sent seedAB @ probes headRequest seedAB 0 (length (urls seedAB))\<rparr>)"
    using startupHealthcheck_result [of deniedWorld headRequest seedAB 0 "length (urls seedAB)"
        _ 0] qf s(2)
    by simp
  then have t: "startupHealthcheck deniedWorld (Suc 0) seedAB =
     Some (Return None (Some (ElasticError 401 None)),
           seedAB\<lparr>sent := [headRequest ''http://a:9200'', headRequest ''http://b:9200'']\<rparr>)"
    by (simp add: probes_def f lastRecorded_def recorded_def deniedWorld_def simpleWorld_def
        answers_def status_def startupHealthcheck_end_def IsUnauthorized_def IsContextErr_def)
  show ?thesis
    by (intro conjI n p q s h t)
qed

end
